theory Spec2Isabelle
  imports Complex_Main "HOL-Library.Word" "HOL-Library.Multiset"
    "HOL-Library.List_Lexorder" "HOL-Library.Char_ord"
begin

section \<open>Byte buffers and hexadecimal strings (sdk/src/utils.ts)\<close>

text \<open>
  A \<open>Buffer\<close> / \<open>Uint8Array\<close> is a list of 8-bit words, a \<open>bigint\<close> that is never
  negative is a natural number, and a JavaScript string of ASCII characters is a
  \<open>string\<close>.
\<close>

type_synonym byte = "8 word"

datatype js_error =
    SyntaxError
  | TypeError
  | WalletNotConnected
  | NoSignMessage
  | SignatureRejected
  | WalletFailure string
  | RpcFailure
  | SlotExhausted
  | NoCommitments
  | InsufficientBalance
  | SimulationFailed
  | SendFailed
  | UnsupportedToken
  | CreateTokenAccountFailed
  | InvalidAmount
  | ProofGenerationFailed

text \<open>The digit \<open>d < 16\<close> as \<open>toString(16)\<close> and \<open>toString('hex')\<close> print it (lower case).\<close>

definition hexDigit :: "nat \<Rightarrow> char" where
  "hexDigit d = char_of (if d < 10 then 48 + d else 87 + d)"

text \<open>The value of a hexadecimal digit; both cases are read, anything else is no digit.\<close>

definition hexValue :: "char \<Rightarrow> nat option" where
  "hexValue c =
     (let n = (of_char c :: nat) in
      if 48 \<le> n \<and> n \<le> 57 then Some (n - 48)
      else if 97 \<le> n \<and> n \<le> 102 then Some (n - 87)
      else if 65 \<le> n \<and> n \<le> 70 then Some (n - 55)
      else None)"

text \<open>\<open>value.toString(16)\<close> for \<open>value \<ge> 0\<close>: the shortest digit string, \<open>"0"\<close> for zero.\<close>

function toString16 :: "nat \<Rightarrow> string" where
  "toString16 n =
     (if n < 16 then [hexDigit n] else toString16 (n div 16) @ [hexDigit (n mod 16)])"
  by pat_completeness auto
termination
  by (relation "measure (\<lambda>n. n)") auto

declare toString16.simps [simp del]

text \<open>\<open>s.padStart(n, c)\<close> with a one-character pad string.\<close>

definition padStart :: "string \<Rightarrow> nat \<Rightarrow> char \<Rightarrow> string" where
  "padStart s n c = replicate (n - length s) c @ s"

text \<open>
  \<open>Buffer.from(hex, 'hex')\<close>: two digits give one byte; decoding stops at the first
  character that is no digit, and a single trailing digit is dropped.
\<close>

fun bufferFromHex :: "string \<Rightarrow> byte list" where
  "bufferFromHex [] = []"
| "bufferFromHex [a] = []"
| "bufferFromHex (a # b # rest) =
     (case hexValue a of
        None \<Rightarrow> []
      | Some h \<Rightarrow>
          (case hexValue b of
             None \<Rightarrow> []
           | Some l \<Rightarrow> of_nat (16 * h + l) # bufferFromHex rest))"

text \<open>\<open>buffer.toString('hex')\<close>: two digits per byte.\<close>

fun bufferToHexString :: "byte list \<Rightarrow> string" where
  "bufferToHexString [] = []"
| "bufferToHexString (b # bs) =
     hexDigit (unat b div 16) # hexDigit (unat b mod 16) # bufferToHexString bs"

text \<open>
  \<open>BigInt('0x' + s)\<close>: the digits of \<open>s\<close> read in base 16. A string with no digit
  after the prefix, or with a character that is no digit, throws a SyntaxError.
\<close>

fun hexDigitsValue :: "nat \<Rightarrow> string \<Rightarrow> nat option" where
  "hexDigitsValue acc [] = Some acc"
| "hexDigitsValue acc (c # cs) =
     (case hexValue c of
        None \<Rightarrow> None
      | Some d \<Rightarrow> hexDigitsValue (16 * acc + d) cs)"

definition bigIntOfHex :: "string \<Rightarrow> js_error + nat" where
  "bigIntOfHex s =
     (if s = [] then Inl SyntaxError
      else case hexDigitsValue 0 s of None \<Rightarrow> Inl SyntaxError | Some v \<Rightarrow> Inr v)"

definition bufferToBigInt :: "byte list \<Rightarrow> js_error + nat" where
  "bufferToBigInt buffer = bigIntOfHex (bufferToHexString buffer)"

definition bigIntToBuffer :: "nat \<Rightarrow> nat \<Rightarrow> byte list" where
  "bigIntToBuffer v len = bufferFromHex (padStart (toString16 v) (len * 2) (CHR ''0''))"

text \<open>The number a byte sequence denotes, most significant byte first.\<close>

definition beValue :: "byte list \<Rightarrow> nat" where
  "beValue bs = foldl (\<lambda>acc b. 256 * acc + unat b) 0 bs"


section \<open>The wallet adapter and the secret manager (sdk/src/v3/secrets.ts)\<close>

text \<open>
  A \<open>bigint\<close> and an integral JavaScript number (a nonce, a block time) are an \<open>int\<close>.
  Amounts in SOL are JavaScript numbers, that is IEEE doubles; the model computes with
  exact rationals instead, which agrees with the source on whole numbers of SOL and on
  the nine amounts of the vocabulary, where \<open>Math.floor(amount * 1e9)\<close> is exact.
\<close>

text \<open>What a wallet throws: \<open>error.message\<close>, \<open>error.name\<close> and \<open>error.code\<close>.\<close>

datatype error_code = NoCode | NumCode int | StrCode string

record wallet_error =
  err_message :: "string option"
  err_name :: "string option"
  err_code :: error_code

datatype sign_response = Signed "byte list" | Throws wallet_error

text \<open>
  The wallet: its public key when connected, and \<open>signMessage\<close> when it supports
  message signing. The wallet is external; the answer to its \<open>n\<close>-th prompt (counting
  from 0) is \<open>f n\<close>.
\<close>

record wallet =
  publicKey :: "string option"
  signMessage :: "(nat \<Rightarrow> sign_response) option"

text \<open>
  The session state of \<open>V3SecretManager\<close>. \<open>signCalls\<close> is not a field of the class:
  it counts the invocations of \<open>wallet.signMessage\<close>, so that prompting is observable.
\<close>

record secret_manager =
  cachedSignature :: "byte list option"
  signatureRejected :: bool
  signCalls :: nat

text \<open>\<open>toLowerCase\<close> and \<open>includes\<close> on ASCII strings.\<close>

definition toLowerCase :: "string \<Rightarrow> string" where
  "toLowerCase s =
     map (\<lambda>c. let n = (of_char c :: nat) in if 65 \<le> n \<and> n \<le> 90 then char_of (n + 32) else c) s"

fun str_includes :: "string \<Rightarrow> string \<Rightarrow> bool" where
  "str_includes [] p = (p = [])"
| "str_includes (c # cs) p = (take (length p) (c # cs) = p \<or> str_includes cs p)"

text \<open>The rejection patterns of the \<open>catch\<close> block of \<open>getWalletSignature\<close>.\<close>

definition isUserRejection :: "wallet_error \<Rightarrow> bool" where
  "isUserRejection e =
     (let errorMessage = (case err_message e of None \<Rightarrow> [] | Some m \<Rightarrow> toLowerCase m);
          errorName = (case err_name e of None \<Rightarrow> [] | Some n \<Rightarrow> toLowerCase n)
      in str_includes errorMessage ''user rejected''
       \<or> str_includes errorMessage ''user denied''
       \<or> str_includes errorMessage ''rejected''
       \<or> str_includes errorMessage ''denied''
       \<or> str_includes errorMessage ''cancelled''
       \<or> str_includes errorMessage ''canceled''
       \<or> str_includes errorName ''walletconnectionerror''
       \<or> str_includes errorName ''walletsigntransactionerror''
       \<or> err_code e = NumCode 4001
       \<or> err_code e = NumCode (- 32603)
       \<or> err_code e = StrCode ''ACTION_REJECTED'')"

text \<open>
  \<open>getWalletSignature\<close>: the cached signature if there is one; otherwise the rejection
  flag, the connection and the capability are checked before the wallet is prompted.
  Both \<open>throw\<close> sites of the rejection use the same message: \<open>SignatureRejected\<close>.
  Any other error of the wallet is thrown again as it is.
\<close>

definition getWalletSignature ::
  "wallet \<Rightarrow> secret_manager \<Rightarrow> (js_error + byte list) \<times> secret_manager" where
  "getWalletSignature w s =
     (case cachedSignature s of
        Some sig \<Rightarrow> (Inr sig, s)
      | None \<Rightarrow>
          if signatureRejected s then (Inl SignatureRejected, s)
          else if publicKey w = None then (Inl WalletNotConnected, s)
          else
            (case signMessage w of
               None \<Rightarrow> (Inl NoSignMessage, s)
             | Some f \<Rightarrow>
                 (case f (signCalls s) of
                    Signed sig \<Rightarrow>
                      (Inr sig,
                       s\<lparr>cachedSignature := Some sig, signatureRejected := False,
                         signCalls := Suc (signCalls s)\<rparr>)
                  | Throws e \<Rightarrow>
                      if isUserRejection e
                      then (Inl SignatureRejected,
                            s\<lparr>signatureRejected := True, signCalls := Suc (signCalls s)\<rparr>)
                      else (Inl (WalletFailure (case err_message e of None \<Rightarrow> [] | Some m \<Rightarrow> m)),
                            s\<lparr>signCalls := Suc (signCalls s)\<rparr>))))"

definition clearCache :: "secret_manager \<Rightarrow> secret_manager" where
  "clearCache s = s\<lparr>cachedSignature := None, signatureRejected := False\<rparr>"

text \<open>A run of signature requests, one wallet per request, with the results in order.\<close>

fun getWalletSignatures ::
  "wallet list \<Rightarrow> secret_manager \<Rightarrow> (js_error + byte list) list \<times> secret_manager" where
  "getWalletSignatures [] s = ([], s)"
| "getWalletSignatures (w # ws) s =
     (case getWalletSignature w s of
        (r, s') \<Rightarrow> (case getWalletSignatures ws s' of (rs, s'') \<Rightarrow> (r # rs, s'')))"

text \<open>
  The external hash and address derivations: \<open>poseidon\<close> of circomlibjs, read through
  \<open>F.toString\<close> as a number, \<open>PublicKey.findProgramAddressSync\<close> on a seed string and
  32 bytes, and \<open>getAssociatedTokenAddressSync\<close> on a mint and an owner.
\<close>

record crypto =
  poseidon :: "int list \<Rightarrow> int"
  findProgramAddressSync :: "string \<Rightarrow> byte list \<Rightarrow> string"
  getAssociatedTokenAddressSync :: "string \<Rightarrow> string \<Rightarrow> string"

text \<open>
  \<open>deriveMasterKey\<close>: the first 31 bytes of the signature, read as a big-endian number
  through \<open>BigInt('0x' + hex)\<close>.
\<close>

definition deriveMasterKey ::
  "wallet \<Rightarrow> secret_manager \<Rightarrow> (js_error + int) \<times> secret_manager" where
  "deriveMasterKey w s =
     (case getWalletSignature w s of
        (Inl e, s') \<Rightarrow> (Inl e, s')
      | (Inr sig, s') \<Rightarrow>
          (case bigIntOfHex (bufferToHexString (take 31 sig)) of
             Inl e \<Rightarrow> (Inl e, s')
           | Inr masterKey \<Rightarrow> (Inr (int masterKey), s')))"

text \<open>\<open>deriveSecret\<close>: \<open>Poseidon(masterKey, nonce, amount)\<close>.\<close>

definition deriveSecret ::
  "crypto \<Rightarrow> wallet \<Rightarrow> int \<Rightarrow> int \<Rightarrow> secret_manager \<Rightarrow> (js_error + int) \<times> secret_manager" where
  "deriveSecret E w nonce amount s =
     (case deriveMasterKey w s of
        (Inl e, s') \<Rightarrow> (Inl e, s')
      | (Inr masterKey, s') \<Rightarrow> (Inr (poseidon E [masterKey, nonce, amount]), s'))"

section \<open>Commitments and nullifiers (sdk/src/v3/proofs.ts)\<close>

definition computeCommitment :: "crypto \<Rightarrow> int \<Rightarrow> int \<Rightarrow> int" where
  "computeCommitment E amount secret = poseidon E [amount, secret]"

definition computeNullifier :: "crypto \<Rightarrow> int \<Rightarrow> int \<Rightarrow> int" where
  "computeNullifier E secret commitment = poseidon E [secret, commitment]"

text \<open>The amounts the scan tries, in lamports.\<close>

definition COMMON_AMOUNTS :: "int list" where
  "COMMON_AMOUNTS =
     [10000000, 50000000, 100000000, 500000000, 1000000000,
      5000000000, 10000000000, 50000000000, 100000000000]"


section \<open>The scan for owned commitments (\<open>V3SecretManager.scanCommitments\<close>)\<close>

text \<open>
  A commitment is the decimal string of a number on both sides of the comparison
  (\<open>F.toString\<close> and \<open>BigInt.toString\<close>), so it is modelled as that number.
\<close>

record chain_commitment =
  cc_commitment :: int
  cc_address :: string

record owned_commitment =
  o_commitment :: int
  o_address :: string
  o_amount :: int
  o_secret :: int
  o_nonce :: int

text \<open>
  The loop state: the array \<open>ownedCommitments\<close>, the secret manager, and a log that is
  not in the source: one entry (commitment, amount, nonce) for every call of
  \<open>deriveSecret\<close> the scan makes.
\<close>

type_synonym scan_state = "owned_commitment list \<times> (int \<times> int \<times> int) list \<times> secret_manager"

text \<open>
  The innermost loop, \<open>for (let nonce = 0; nonce < maxNonce; nonce++)\<close>. An error thrown
  inside the \<open>try\<close> is dropped and the loop goes on; a match pushes the record and
  leaves this loop with \<open>break\<close>.
\<close>

function scanNonces ::
  "crypto \<Rightarrow> wallet \<Rightarrow> chain_commitment \<Rightarrow> int \<Rightarrow> int \<Rightarrow> int \<Rightarrow> scan_state \<Rightarrow> scan_state" where
  "scanNonces E w c amount maxNonce nonce (owned, tried, s) =
     (if nonce < maxNonce then
        (case deriveSecret E w nonce amount s of
           (Inl e, s') \<Rightarrow>
             scanNonces E w c amount maxNonce (nonce + 1)
               (owned, tried @ [(cc_commitment c, amount, nonce)], s')
         | (Inr secret, s') \<Rightarrow>
             if poseidon E [amount, secret] = cc_commitment c
             then (owned @ [\<lparr>o_commitment = cc_commitment c, o_address = cc_address c,
                              o_amount = amount, o_secret = secret, o_nonce = nonce\<rparr>],
                   tried @ [(cc_commitment c, amount, nonce)], s')
             else scanNonces E w c amount maxNonce (nonce + 1)
                    (owned, tried @ [(cc_commitment c, amount, nonce)], s'))
      else (owned, tried, s))"
  by pat_completeness auto
termination
  by (relation "measure (\<lambda>(E, w, c, amount, maxNonce, nonce, st). nat (maxNonce - nonce))") auto

declare scanNonces.simps [simp del]

text \<open>The middle loop, \<open>for (const amount of possibleAmounts)\<close>.\<close>

fun scanAmounts ::
  "crypto \<Rightarrow> wallet \<Rightarrow> chain_commitment \<Rightarrow> int list \<Rightarrow> int \<Rightarrow> scan_state \<Rightarrow> scan_state" where
  "scanAmounts E w c [] maxNonce st = st"
| "scanAmounts E w c (amount # amounts) maxNonce st =
     scanAmounts E w c amounts maxNonce (scanNonces E w c amount maxNonce 0 st)"

text \<open>The outer loop, \<open>for (const { commitment, address } of commitments)\<close>.\<close>

fun scanAll ::
  "crypto \<Rightarrow> wallet \<Rightarrow> chain_commitment list \<Rightarrow> int list \<Rightarrow> int \<Rightarrow> scan_state \<Rightarrow> scan_state" where
  "scanAll E w [] possibleAmounts maxNonce st = st"
| "scanAll E w (c # cs) possibleAmounts maxNonce st =
     scanAll E w cs possibleAmounts maxNonce (scanAmounts E w c possibleAmounts maxNonce st)"

definition scanCommitments ::
  "crypto \<Rightarrow> wallet \<Rightarrow> chain_commitment list \<Rightarrow> int list \<Rightarrow> int \<Rightarrow> secret_manager \<Rightarrow> scan_state" where
  "scanCommitments E w commitments possibleAmounts maxNonce s =
     scanAll E w commitments possibleAmounts maxNonce ([], [], s)"

section \<open>The ledger and the balance (\<open>DunV3Client.getBalance\<close>)\<close>

text \<open>The instructions the client builds and sends.\<close>

datatype ledger_op =
    DepositOp "byte list" int string
  | WithdrawOp "byte list" int string
  | WithdrawWithChangeOp "byte list" "byte list" int string
  | CreateTokenAccountOp string string string

text \<open>
  One snapshot of the ledger as the RPC shows it:
  \<^item> \<open>getProgramAccounts\<close>: address and data of the program's accounts of data size 81, in
    the order the RPC returns them (\<open>None\<close>: the call throws);
  \<^item> \<open>getAccountInfo\<close>: \<open>Some True\<close> for an account, \<open>Some False\<close> for \<open>null\<close>,
    \<open>None\<close> when the call throws;
  \<^item> \<open>getBlockTime\<close>: the block time of the newest signature of an address, as
    \<open>getSignaturesForAddress\<close> with limit 1 gives it (\<open>None\<close>: no signature, no block
    time, or the call throws);
  \<^item> \<open>simulateTransaction\<close>: whether the simulation reports no error;
  \<^item> \<open>sendTransaction\<close>: the signature of the sent and confirmed transaction (\<open>None\<close>:
    sending or confirming throws).
\<close>

record ledger =
  getProgramAccounts :: "(string \<times> byte list) list option"
  getAccountInfo :: "string \<Rightarrow> bool option"
  getBlockTime :: "string \<Rightarrow> int option"
  simulateTransaction :: "ledger_op \<Rightarrow> bool"
  sendTransaction :: "ledger_op \<Rightarrow> string option"

text \<open>
  The 32 bytes of a number, most significant first:
  \<open>for (let i = 31; i >= 0; i--) { bytes[i] = Number(value & 0xFFn); value = value >> 8n; }\<close>
\<close>

fun bytesBE :: "nat \<Rightarrow> int \<Rightarrow> byte list" where
  "bytesBE 0 v = []"
| "bytesBE (Suc k) v = bytesBE k (v div 256) @ [of_int (v mod 256)]"

definition toBytes32 :: "int \<Rightarrow> byte list" where
  "toBytes32 v = bytesBE 32 v"

text \<open>
  The commitment of an account: bytes 8 to 39 of its data, read most significant first.
  The data-size filter gives 81 bytes; on shorter data \<open>BigInt(undefined)\<close> throws.
\<close>

definition parseCommitmentAccount :: "string \<times> byte list \<Rightarrow> js_error + chain_commitment" where
  "parseCommitmentAccount acc =
     (let commitment = take 32 (drop 8 (snd acc)) in
      if length commitment < 32 then Inl TypeError
      else Inr \<lparr>cc_commitment = int (beValue commitment), cc_address = fst acc\<rparr>)"

fun parseCommitmentAccounts ::
  "(string \<times> byte list) list \<Rightarrow> js_error + chain_commitment list" where
  "parseCommitmentAccounts [] = Inr []"
| "parseCommitmentAccounts (a # as) =
     (case parseCommitmentAccount a of
        Inl e \<Rightarrow> Inl e
      | Inr c \<Rightarrow> (case parseCommitmentAccounts as of Inl e \<Rightarrow> Inl e | Inr cs \<Rightarrow> Inr (c # cs)))"

text \<open>An entry of \<open>V3BalanceInfo.commitments\<close>, and the same with its block time.\<close>

record balance_entry =
  commitment :: int
  amount :: rat
  nonce :: int
  isSpent :: bool
  address :: string

record timed_entry = balance_entry +
  blockTime :: int

record V3BalanceInfo =
  totalBalance :: rat
  commitments :: "balance_entry list"

text \<open>
  The block time \<open>getBalance\<close> records for an address: 0 unless the newest signature
  has one.
\<close>

definition blockTimeOf :: "ledger \<Rightarrow> string \<Rightarrow> int" where
  "blockTimeOf L a = (case getBlockTime L a of None \<Rightarrow> 0 | Some t \<Rightarrow> t)"

text \<open>The body of \<open>for (const owned of ownedCommitments)\<close>: spent status and block time.\<close>

definition timedEntry :: "crypto \<Rightarrow> ledger \<Rightarrow> owned_commitment \<Rightarrow> timed_entry" where
  "timedEntry E L owned =
     (let nullifier = computeNullifier E (o_secret owned) (o_commitment owned);
          nullifierPDA = findProgramAddressSync E ''nullifier'' (toBytes32 nullifier)
      in \<lparr>commitment = o_commitment owned,
          amount = of_int (o_amount owned) / 1000000000,
          nonce = o_nonce owned,
          isSpent = (getAccountInfo L nullifierPDA = Some True),
          address = o_address owned,
          blockTime = blockTimeOf L (o_address owned)\<rparr>)"

text \<open>The comparison function given to \<open>sort\<close>.\<close>

definition compareFn :: "timed_entry \<Rightarrow> timed_entry \<Rightarrow> int" where
  "compareFn a b =
     (if isSpent a \<noteq> isSpent b then (if isSpent a then 1 else - 1)
      else blockTime b - blockTime a)"

text \<open>
  \<open>Array.prototype.sort\<close> is a stable sort (ECMAScript 2019): with a consistent
  comparison function its result is the stable insertion sort below.
\<close>

fun insertBy :: "('a \<Rightarrow> 'a \<Rightarrow> int) \<Rightarrow> 'a \<Rightarrow> 'a list \<Rightarrow> 'a list" where
  "insertBy cmp x [] = [x]"
| "insertBy cmp x (y # ys) = (if cmp x y \<le> 0 then x # y # ys else y # insertBy cmp x ys)"

definition sortBy :: "('a \<Rightarrow> 'a \<Rightarrow> int) \<Rightarrow> 'a list \<Rightarrow> 'a list" where
  "sortBy cmp xs = foldr (insertBy cmp) xs []"

definition withoutBlockTime :: "timed_entry \<Rightarrow> balance_entry" where
  "withoutBlockTime e =
     \<lparr>commitment = commitment e, amount = amount e, nonce = nonce e,
      isSpent = isSpent e, address = address e\<rparr>"

text \<open>The entries in scan order, and the entries as \<open>getBalance\<close> sorts them.\<close>

definition commitmentsWithTime :: "crypto \<Rightarrow> ledger \<Rightarrow> owned_commitment list \<Rightarrow> timed_entry list" where
  "commitmentsWithTime E L ownedCommitments = map (timedEntry E L) ownedCommitments"

definition sortedCommitments :: "crypto \<Rightarrow> ledger \<Rightarrow> owned_commitment list \<Rightarrow> timed_entry list" where
  "sortedCommitments E L ownedCommitments = sortBy compareFn (commitmentsWithTime E L ownedCommitments)"

text \<open>
  \<open>getBalance\<close>: enumerate, parse, scan with the common amounts and 100 nonces, then
  build the sorted view; the total adds the unspent amounts in scan order. The source
  adds doubles, so its total can differ in the last digit between two scan orders; the
  exact sum here cannot, and nothing below compares the totals of two different
  enumeration orders.
\<close>

definition getBalance ::
  "crypto \<Rightarrow> ledger \<Rightarrow> wallet \<Rightarrow> secret_manager \<Rightarrow> (js_error + V3BalanceInfo) \<times> secret_manager" where
  "getBalance E L w s =
     (if publicKey w = None then (Inl WalletNotConnected, s)
      else
        (case getProgramAccounts L of
           None \<Rightarrow> (Inl RpcFailure, s)
         | Some accounts \<Rightarrow>
             (case parseCommitmentAccounts accounts of
                Inl e \<Rightarrow> (Inl e, s)
              | Inr cs \<Rightarrow>
                  (case scanCommitments E w cs COMMON_AMOUNTS 100 s of
                     (ownedCommitments, tried, s') \<Rightarrow>
                       (Inr \<lparr>totalBalance =
                               sum_list (map amount
                                 (filter (\<lambda>e. \<not> isSpent e) (commitmentsWithTime E L ownedCommitments))),
                             commitments =
                               map withoutBlockTime (sortedCommitments E L ownedCommitments)\<rparr>,
                        s')))))"


section \<open>Deposit (\<open>DunV3Client.deposit\<close>)\<close>

record V3DepositParams =
  dep_amount :: rat
  dep_token :: string

text \<open>
  \<open>BigInt(Math.floor(amount * 1e9))\<close>, computed exactly. The source multiplies IEEE
  doubles: the two agree on whole numbers of SOL, on the nine amounts of the vocabulary
  and on 0.005 SOL, but not on every decimal (for 1.001 SOL the source gives 1000999999
  lamports, the exact product 1001000000), and \<open>NaN\<close> and the infinities, on which
  \<open>BigInt\<close> throws, are no rationals. The properties below are stated for the lamport
  amount \<open>toLamports a\<close>, whatever it is, and evaluated only where the two agree.
\<close>

definition toLamports :: "rat \<Rightarrow> int" where
  "toLamports a = \<lfloor>a * 1000000000\<rfloor>"

definition getTokenMint :: "string \<Rightarrow> js_error + string" where
  "getTokenMint token =
     (if token = ''SOL'' then Inr ''So11111111111111111111111111111111111111112''
      else Inl UnsupportedToken)"

text \<open>
  \<open>getNextNonce\<close>: one more than the largest nonce of the scanned balance, 0 when the
  balance is empty or \<open>getBalance\<close> throws.
\<close>

definition getNextNonce ::
  "crypto \<Rightarrow> ledger \<Rightarrow> wallet \<Rightarrow> secret_manager \<Rightarrow> int \<times> secret_manager" where
  "getNextNonce E L w s =
     (case getBalance E L w s of
        (Inl e, s') \<Rightarrow> (0, s')
      | (Inr balance, s') \<Rightarrow>
          if commitments balance = [] then (0, s')
          else (Max (set (map nonce (commitments balance))) + 1, s'))"

definition maxAttempts :: int where
  "maxAttempts = 100"

text \<open>
  The loop \<open>while (commitmentExists && attempts < maxAttempts)\<close> on the variables
  (nonce, secret, commitment, attempts), here \<open>(n, secret, c, attempts)\<close>. It is left with \<open>commitmentExists = false\<close>
  when the account of the commitment is \<open>null\<close>, and \<open>attempts\<close> counts the collisions.
\<close>

function depositNonceLoop ::
  "crypto \<Rightarrow> ledger \<Rightarrow> wallet \<Rightarrow> int \<Rightarrow> int \<times> int \<times> int \<times> int \<Rightarrow> secret_manager
     \<Rightarrow> (js_error + int \<times> int \<times> int \<times> int) \<times> secret_manager" where
  "depositNonceLoop E L w amountLamports (n, secret, c, attempts) s =
     (if attempts < maxAttempts then
        (case getAccountInfo L (findProgramAddressSync E ''commitment'' (toBytes32 c)) of
           None \<Rightarrow> (Inl RpcFailure, s)
         | Some False \<Rightarrow> (Inr (n, secret, c, attempts), s)
         | Some True \<Rightarrow>
             (case deriveSecret E w (n + 1) amountLamports s of
                (Inl e, s') \<Rightarrow> (Inl e, s')
              | (Inr secret', s') \<Rightarrow>
                  depositNonceLoop E L w amountLamports
                    (n + 1, secret', computeCommitment E amountLamports secret', attempts + 1) s'))
      else (Inr (n, secret, c, attempts), s))"
  by pat_completeness auto
termination
  by (relation "measure (\<lambda>(E, L, w, a, (n, sec, c, attempts), s). nat (maxAttempts - attempts))") auto

declare depositNonceLoop.simps [simp del]

text \<open>
  The first part of \<open>deposit\<close>, up to the check after the loop: the amount in lamports
  and the slot (nonce, secret, commitment) the transaction is built for.
\<close>

definition depositSlot ::
  "crypto \<Rightarrow> ledger \<Rightarrow> wallet \<Rightarrow> secret_manager \<Rightarrow> V3DepositParams
     \<Rightarrow> (js_error + int \<times> int \<times> int \<times> int) \<times> secret_manager" where
  "depositSlot E L w s params =
     (if publicKey w = None then (Inl WalletNotConnected, s)
      else
        (let amountLamports = toLamports (dep_amount params) in
         case getTokenMint (dep_token params) of
           Inl e \<Rightarrow> (Inl e, s)
         | Inr tokenMint \<Rightarrow>
             (case getNextNonce E L w s of
                (n, s1) \<Rightarrow>
                  (case deriveSecret E w n amountLamports s1 of
                     (Inl e, s2) \<Rightarrow> (Inl e, s2)
                   | (Inr secret, s2) \<Rightarrow>
                       (case depositNonceLoop E L w amountLamports
                               (n, secret, computeCommitment E amountLamports secret, 0) s2 of
                          (Inl e, s3) \<Rightarrow> (Inl e, s3)
                        | (Inr (n', secret', c', attempts), s3) \<Rightarrow>
                            if attempts \<ge> maxAttempts then (Inl SlotExhausted, s3)
                            else (Inr (amountLamports, n', secret', c'), s3))))))"

text \<open>The rest of \<open>deposit\<close>: build the instruction, simulate, send and confirm.\<close>

definition deposit ::
  "crypto \<Rightarrow> ledger \<Rightarrow> wallet \<Rightarrow> secret_manager \<Rightarrow> V3DepositParams
     \<Rightarrow> (js_error + string) \<times> secret_manager" where
  "deposit E L w s params =
     (case depositSlot E L w s params of
        (Inl e, s') \<Rightarrow> (Inl e, s')
      | (Inr (amountLamports, n, secret, c), s') \<Rightarrow>
          (let commitmentBytes = toBytes32 c;
               commitmentPDA = findProgramAddressSync E ''commitment'' commitmentBytes;
               tx = DepositOp commitmentBytes amountLamports commitmentPDA
           in if \<not> simulateTransaction L tx then (Inl SimulationFailed, s')
              else (case sendTransaction L tx of
                      None \<Rightarrow> (Inl SendFailed, s')
                    | Some signature \<Rightarrow> (Inr signature, s'))))"

section \<open>Withdraw (\<open>DunV3Client.withdraw\<close>)\<close>

record V3WithdrawParams =
  wd_amount :: rat
  wd_token :: string
  wd_recipient :: "string option"

text \<open>
  What \<open>withdraw\<close> has decided when it reaches \<open>if (changeAmountLamports > 0)\<close>: the
  selected entry, its secret and nullifier, the two amounts, and the recipient.
\<close>

record withdraw_plan =
  wp_commitment :: balance_entry
  wp_secret :: int
  wp_nullifier :: int
  wp_withdrawAmount :: int
  wp_changeAmount :: int
  wp_tokenMint :: string
  wp_recipientTokenAccount :: string
  wp_recipient :: string

definition withdrawPlan ::
  "crypto \<Rightarrow> ledger \<Rightarrow> wallet \<Rightarrow> secret_manager \<Rightarrow> V3WithdrawParams
     \<Rightarrow> (js_error + withdraw_plan) \<times> secret_manager" where
  "withdrawPlan E L w s params =
     (case publicKey w of
        None \<Rightarrow> (Inl WalletNotConnected, s)
      | Some walletKey \<Rightarrow>
          (let withdrawAmountLamports = toLamports (wd_amount params) in
           case getBalance E L w s of
             (Inl e, s1) \<Rightarrow> (Inl e, s1)
           | (Inr balance, s1) \<Rightarrow>
               if commitments balance = [] then (Inl NoCommitments, s1)
               else
                 (case find (\<lambda>c. \<not> isSpent c \<and> toLamports (amount c) \<ge> withdrawAmountLamports)
                         (commitments balance) of
                    None \<Rightarrow> (Inl InsufficientBalance, s1)
                  | Some c \<Rightarrow>
                      (let commitmentAmountLamports = toLamports (amount c);
                           changeAmountLamports = commitmentAmountLamports - withdrawAmountLamports
                       in case deriveSecret E w (nonce c) commitmentAmountLamports s1 of
                            (Inl e, s2) \<Rightarrow> (Inl e, s2)
                          | (Inr secret, s2) \<Rightarrow>
                              (case getTokenMint (wd_token params) of
                                 Inl e \<Rightarrow> (Inl e, s2)
                               | Inr tokenMint \<Rightarrow>
                                   (let recipientPubkey =
                                          (case wd_recipient params of
                                             None \<Rightarrow> walletKey
                                           | Some r \<Rightarrow> if r = [] then walletKey else r)
                                    in (Inr \<lparr>wp_commitment = c,
                                              wp_secret = secret,
                                              wp_nullifier = computeNullifier E secret (commitment c),
                                              wp_withdrawAmount = withdrawAmountLamports,
                                              wp_changeAmount = changeAmountLamports,
                                              wp_tokenMint = tokenMint,
                                              wp_recipientTokenAccount =
                                                getAssociatedTokenAddressSync E tokenMint recipientPubkey,
                                              wp_recipient = recipientPubkey\<rparr>,
                                        s2)))))))"

text \<open>
  Both withdraw paths first create the recipient's token account when it is missing,
  then simulate and send their instruction.
\<close>

definition ensureTokenAccount :: "ledger \<Rightarrow> withdraw_plan \<Rightarrow> js_error + unit" where
  "ensureTokenAccount L p =
     (case getAccountInfo L (wp_recipientTokenAccount p) of
        None \<Rightarrow> Inl RpcFailure
      | Some True \<Rightarrow> Inr ()
      | Some False \<Rightarrow>
          (case sendTransaction L
                  (CreateTokenAccountOp (wp_recipientTokenAccount p) (wp_recipient p) (wp_tokenMint p)) of
             None \<Rightarrow> Inl CreateTokenAccountFailed
           | Some sig \<Rightarrow> Inr ()))"

definition simulateAndSend :: "ledger \<Rightarrow> ledger_op \<Rightarrow> js_error + string" where
  "simulateAndSend L tx =
     (if \<not> simulateTransaction L tx then Inl SimulationFailed
      else (case sendTransaction L tx of None \<Rightarrow> Inl SendFailed | Some signature \<Rightarrow> Inr signature))"

definition simpleWithdraw :: "crypto \<Rightarrow> ledger \<Rightarrow> withdraw_plan \<Rightarrow> js_error + string" where
  "simpleWithdraw E L p =
     (case ensureTokenAccount L p of
        Inl e \<Rightarrow> Inl e
      | Inr u \<Rightarrow>
          simulateAndSend L
            (WithdrawOp (toBytes32 (wp_nullifier p)) (wp_withdrawAmount p) (wp_recipientTokenAccount p)))"

text \<open>
  \<open>withdrawWithChange\<close>; \<open>newSecret\<close> is the value \<open>generateRandomSecret\<close> draws. The
  change commitment hides \<open>changeAmount\<close>; no proof is generated on this path.
\<close>

definition withdrawWithChange :: "crypto \<Rightarrow> ledger \<Rightarrow> int \<Rightarrow> withdraw_plan \<Rightarrow> js_error + string" where
  "withdrawWithChange E L newSecret p =
     (case ensureTokenAccount L p of
        Inl e \<Rightarrow> Inl e
      | Inr u \<Rightarrow>
          (let newCommitment = computeCommitment E (wp_changeAmount p) newSecret in
           simulateAndSend L
             (WithdrawWithChangeOp (toBytes32 (wp_nullifier p)) (toBytes32 newCommitment)
                (wp_withdrawAmount p) (wp_recipientTokenAccount p))))"

definition withdraw ::
  "crypto \<Rightarrow> ledger \<Rightarrow> wallet \<Rightarrow> secret_manager \<Rightarrow> int \<Rightarrow> V3WithdrawParams
     \<Rightarrow> (js_error + string) \<times> secret_manager" where
  "withdraw E L w s newSecret params =
     (case withdrawPlan E L w s params of
        (Inl e, s') \<Rightarrow> (Inl e, s')
      | (Inr p, s') \<Rightarrow>
          if wp_changeAmount p > 0 then (withdrawWithChange E L newSecret p, s')
          else (simpleWithdraw E L p, s'))"

section \<open>The amount vocabulary at the callers (V5 client, chat tools, playground)\<close>

definition COMMON_AMOUNTS_SOL :: "rat list" where
  "COMMON_AMOUNTS_SOL = [1 / 100, 5 / 100, 1 / 10, 5 / 10, 1, 5, 10, 50, 100]"



text \<open>
  The \<open>execute\<close> functions of the chat tools \<open>depositToShieldedPool\<close> and
  \<open>withdrawFromShieldedPool\<close>: a failure, or a request that the client runs the action.
\<close>

datatype tool_result =
    ToolFailure js_error
  | RequiresClientExecution string rat "string option"

definition depositToShieldedPool :: "rat \<Rightarrow> tool_result" where
  "depositToShieldedPool a =
     (if a \<notin> set COMMON_AMOUNTS_SOL then ToolFailure InvalidAmount
      else RequiresClientExecution ''depositToShieldedPool'' a None)"


text \<open>
  The playground's \<open>handleDeposit\<close> and \<open>handleWithdraw\<close>, for a connected client: the
  amount is checked before the client is called; \<open>handleWithdraw\<close> also compares the
  amount with the balance last shown.
\<close>

definition handleDeposit ::
  "crypto \<Rightarrow> ledger \<Rightarrow> wallet \<Rightarrow> secret_manager \<Rightarrow> rat \<Rightarrow> (js_error + string) \<times> secret_manager" where
  "handleDeposit E L w s depositAmount =
     (if depositAmount \<notin> set COMMON_AMOUNTS_SOL then (Inl InvalidAmount, s)
      else deposit E L w s \<lparr>dep_amount = depositAmount, dep_token = ''SOL''\<rparr>)"


section \<open>Proof generation (\<open>V3ProofGenerator\<close>)\<close>

record WithdrawWithChangeProofInputs =
  oldCommitment :: int
  oldNullifier :: int
  newCommitment :: int
  withdrawAmount :: int
  oldAmount :: int
  oldSecret :: int
  newAmount :: int
  newSecret :: int

datatype circuit = DepositCircuit | WithdrawCircuit | WithdrawWithChangeCircuit

text \<open>
  \<open>groth16.fullProve\<close> of snarkjs with the files of a circuit is external: it is the
  parameter \<open>fullProve\<close>, from the circuit and the named inputs to a proof or an error.
  \<open>generateWithdrawWithChangeProof\<close> names the eight inputs and returns what the prover
  returns.
\<close>

definition generateWithdrawWithChangeProof ::
  "(circuit \<Rightarrow> (string \<times> int) list \<Rightarrow> js_error + 'r) \<Rightarrow> WithdrawWithChangeProofInputs
     \<Rightarrow> js_error + 'r" where
  "generateWithdrawWithChangeProof fullProve inputs =
     fullProve WithdrawWithChangeCircuit
       [(''oldCommitment'', oldCommitment inputs),
        (''oldNullifier'', oldNullifier inputs),
        (''newCommitment'', newCommitment inputs),
        (''withdrawAmount'', withdrawAmount inputs),
        (''oldAmount'', oldAmount inputs),
        (''oldSecret'', oldSecret inputs),
        (''newAmount'', newAmount inputs),
        (''newSecret'', newSecret inputs)]"


text \<open>
  Modelled from the spec: the value of a named circuit input (0 when the name is not
  given). The circuits (\<open>circuits/v3\<close>) are not among the sources.
\<close>

definition inputOf :: "(string \<times> int) list \<Rightarrow> string \<Rightarrow> int" where
  "inputOf inputs n = (case map_of inputs n of None \<Rightarrow> 0 | Some v \<Rightarrow> v)"

text \<open>Modelled from the spec: whether every input a circuit names is given.\<close>

definition hasInputs :: "(string \<times> int) list \<Rightarrow> string list \<Rightarrow> bool" where
  "hasInputs inputs names = list_all (\<lambda>n. n \<in> set (map fst inputs)) names"

text \<open>
  Modelled from the spec: what the three circuits assert (section 4.4). The deposit
  circuit: the amount is positive and at most the maximum allowed, and the commitment is
  \<open>H(amount, secret)\<close>. The withdraw circuit: \<open>withdrawAmount \<le> commitmentAmount\<close> and the
  nullifier is \<open>H(secret, commitment)\<close>. The withdraw-with-change circuit:
  \<open>oldAmount = withdrawAmount + newAmount\<close>, the old nullifier is
  \<open>H(oldSecret, oldCommitment)\<close> and the new commitment is \<open>H(newAmount, newSecret)\<close>.
\<close>

definition circuitSatisfied :: "crypto \<Rightarrow> int \<Rightarrow> circuit \<Rightarrow> (string \<times> int) list \<Rightarrow> bool" where
  "circuitSatisfied E maxAllowed circ inputs =
     (case circ of
        DepositCircuit \<Rightarrow>
          hasInputs inputs [''commitment'', ''amount'', ''secret'']
          \<and> 0 < inputOf inputs ''amount''
          \<and> inputOf inputs ''amount'' \<le> maxAllowed
          \<and> inputOf inputs ''commitment''
                = poseidon E [inputOf inputs ''amount'', inputOf inputs ''secret'']
      | WithdrawCircuit \<Rightarrow>
          hasInputs inputs
            [''commitment'', ''nullifier'', ''withdrawAmount'', ''commitmentAmount'', ''secret'']
          \<and> inputOf inputs ''withdrawAmount'' \<le> inputOf inputs ''commitmentAmount''
          \<and> inputOf inputs ''nullifier''
                = poseidon E [inputOf inputs ''secret'', inputOf inputs ''commitment'']
      | WithdrawWithChangeCircuit \<Rightarrow>
          hasInputs inputs
            [''oldCommitment'', ''oldNullifier'', ''newCommitment'', ''withdrawAmount'',
             ''oldAmount'', ''oldSecret'', ''newAmount'', ''newSecret'']
          \<and> inputOf inputs ''oldAmount''
                = inputOf inputs ''withdrawAmount'' + inputOf inputs ''newAmount''
          \<and> inputOf inputs ''oldNullifier''
                = poseidon E [inputOf inputs ''oldSecret'', inputOf inputs ''oldCommitment'']
          \<and> inputOf inputs ''newCommitment''
                = poseidon E [inputOf inputs ''newAmount'', inputOf inputs ''newSecret''])"

text \<open>
  Modelled from the spec: \<open>groth16.fullProve\<close> with the files of a circuit. A violated
  assertion fails with \<open>ProofGenerationFailed\<close> and produces no proof; otherwise a proof
  comes back, whose content is opaque here.
\<close>

definition specFullProve :: "crypto \<Rightarrow> int \<Rightarrow> circuit \<Rightarrow> (string \<times> int) list \<Rightarrow> js_error + unit" where
  "specFullProve E maxAllowed circ inputs =
     (if circuitSatisfied E maxAllowed circ inputs then Inr () else Inl ProofGenerationFailed)"

section \<open>What the scan computes once the signature is cached\<close>

text \<open>
  With a cached signature every derivation succeeds, and the nested iteration computes the
  following: for each commitment on the ledger, in order, and for each amount, in order,
  the first nonce below \<open>maxNonce\<close> whose candidate commitment equals it, if there is one.
\<close>

definition candidate :: "crypto \<Rightarrow> int \<Rightarrow> int \<Rightarrow> int \<Rightarrow> int" where
  "candidate E masterKey a k = poseidon E [a, poseidon E [masterKey, k, a]]"

definition ownedAt :: "crypto \<Rightarrow> int \<Rightarrow> chain_commitment \<Rightarrow> int \<Rightarrow> int \<Rightarrow> int \<Rightarrow> owned_commitment list" where
  "ownedAt E masterKey c a maxNonce k0 =
     (case find (\<lambda>k. candidate E masterKey a k = cc_commitment c) [k0 .. maxNonce - 1] of
        None \<Rightarrow> []
      | Some k \<Rightarrow>
          [\<lparr>o_commitment = cc_commitment c, o_address = cc_address c, o_amount = a,
            o_secret = poseidon E [masterKey, k, a], o_nonce = k\<rparr>])"

definition scanResult :: "crypto \<Rightarrow> int \<Rightarrow> chain_commitment list \<Rightarrow> int list \<Rightarrow> int \<Rightarrow> owned_commitment list" where
  "scanResult E masterKey cs possibleAmounts maxNonce =
     concat (map (\<lambda>c. concat (map (\<lambda>a. ownedAt E masterKey c a maxNonce 0) possibleAmounts)) cs)"

section \<open>A concrete instance\<close>

text \<open>
  A small stand-in for the external hash, injective on the amounts and nonces of the
  scan, and stand-ins for the two address derivations; a wallet, its 64-byte signature
  and sessions; and ledger snapshots built from them.
\<close>

fun toyPoseidon :: "int list \<Rightarrow> int" where
  "toyPoseidon [x, y, z] = (x mod 2 ^ 40) * 2 ^ 80 + (y mod 2 ^ 40) * 2 ^ 40 + z mod 2 ^ 40"
| "toyPoseidon [x, y] = (x mod 2 ^ 40) * 2 ^ 120 + y mod 2 ^ 120"
| "toyPoseidon xs = 0"

definition toyCrypto :: crypto where
  "toyCrypto =
     \<lparr>poseidon = toyPoseidon,
      findProgramAddressSync = (\<lambda>seed bytes. seed @ ''/'' @ bufferToHexString bytes),
      getAssociatedTokenAddressSync = (\<lambda>mint owner. ''ata/'' @ owner)\<rparr>"

definition exampleSignature :: "byte list" where
  "exampleSignature = map of_nat [1 ..< 65]"

definition exampleMasterKey :: int where
  "exampleMasterKey = int (beValue (take 31 exampleSignature))"

definition exampleWallet :: wallet where
  "exampleWallet = \<lparr>publicKey = Some ''Wallet'', signMessage = Some (\<lambda>n. Signed exampleSignature)\<rparr>"

definition rejectingWallet :: wallet where
  "rejectingWallet =
     \<lparr>publicKey = Some ''Wallet'',
      signMessage = Some (\<lambda>n. Throws \<lparr>err_message = Some ''User rejected the request.'',
                                       err_name = Some ''WalletSignMessageError'',
                                       err_code = NumCode 4001\<rparr>)\<rparr>"

definition freshSession :: secret_manager where
  "freshSession = \<lparr>cachedSignature = None, signatureRejected = False, signCalls = 0\<rparr>"

definition signedSession :: secret_manager where
  "signedSession =
     \<lparr>cachedSignature = Some exampleSignature, signatureRejected = False, signCalls = 1\<rparr>"

text \<open>The commitment of the example wallet for an amount and a nonce, and its account.\<close>

definition exampleCommitment :: "int \<Rightarrow> int \<Rightarrow> int" where
  "exampleCommitment a k = candidate toyCrypto exampleMasterKey a k"

definition accountData :: "int \<Rightarrow> byte list" where
  "accountData c = replicate 8 0 @ toBytes32 c @ replicate 41 0"

definition commitmentPDA :: "int \<Rightarrow> string" where
  "commitmentPDA c = findProgramAddressSync toyCrypto ''commitment'' (toBytes32 c)"


text \<open>
  Two deposits of 0.01 SOL of the example wallet, at nonces 0 and 1, created in the same
  block; the RPC lists the account at address B before the one at address A. Nothing is
  spent.
\<close>

definition tieLedger :: ledger where
  "tieLedger =
     \<lparr>getProgramAccounts =
        Some [(''B'', accountData (exampleCommitment 10000000 0)),
              (''A'', accountData (exampleCommitment 10000000 1))],
      getAccountInfo = (\<lambda>a. Some False),
      getBlockTime = (\<lambda>a. Some 1700000000),
      simulateTransaction = (\<lambda>tx. True),
      sendTransaction = (\<lambda>tx. Some ''signature'')\<rparr>"

text \<open>The view \<open>getBalance\<close> returns for this snapshot and the example wallet.\<close>

definition tieView :: V3BalanceInfo where
  "tieView =
     \<lparr>totalBalance = 1 / 50,
      commitments =
        [\<lparr>commitment = exampleCommitment 10000000 0, amount = 1 / 100, nonce = 0,
          isSpent = False, address = ''B''\<rparr>,
         \<lparr>commitment = exampleCommitment 10000000 1, amount = 1 / 100, nonce = 1,
          isSpent = False, address = ''A''\<rparr>]\<rparr>"




text \<open>
  The snapshot \<open>tieLedger\<close> with the same two accounts enumerated in the other order, and
  the view \<open>getBalance\<close> returns for it.
\<close>

definition swappedTieLedger :: ledger where
  "swappedTieLedger =
     \<lparr>getProgramAccounts =
        Some [(''A'', accountData (exampleCommitment 10000000 1)),
              (''B'', accountData (exampleCommitment 10000000 0))],
      getAccountInfo = (\<lambda>a. Some False),
      getBlockTime = (\<lambda>a. Some 1700000000),
      simulateTransaction = (\<lambda>tx. True),
      sendTransaction = (\<lambda>tx. Some ''signature'')\<rparr>"

definition swappedTieView :: V3BalanceInfo where
  "swappedTieView =
     \<lparr>totalBalance = 1 / 50,
      commitments =
        [\<lparr>commitment = exampleCommitment 10000000 1, amount = 1 / 100, nonce = 1,
          isSpent = False, address = ''A''\<rparr>,
         \<lparr>commitment = exampleCommitment 10000000 0, amount = 1 / 100, nonce = 0,
          isSpent = False, address = ''B''\<rparr>]\<rparr>"

text \<open>
  The same two deposits created in different blocks, the one at address A later, in both
  enumeration orders, and the view for the first.
\<close>

definition stampedLedger :: ledger where
  "stampedLedger =
     \<lparr>getProgramAccounts =
        Some [(''B'', accountData (exampleCommitment 10000000 0)),
              (''A'', accountData (exampleCommitment 10000000 1))],
      getAccountInfo = (\<lambda>a. Some False),
      getBlockTime = (\<lambda>a. if a = ''A'' then Some 1700000100 else Some 1700000000),
      simulateTransaction = (\<lambda>tx. True),
      sendTransaction = (\<lambda>tx. Some ''signature'')\<rparr>"

definition swappedStampedLedger :: ledger where
  "swappedStampedLedger =
     \<lparr>getProgramAccounts =
        Some [(''A'', accountData (exampleCommitment 10000000 1)),
              (''B'', accountData (exampleCommitment 10000000 0))],
      getAccountInfo = (\<lambda>a. Some False),
      getBlockTime = (\<lambda>a. if a = ''A'' then Some 1700000100 else Some 1700000000),
      simulateTransaction = (\<lambda>tx. True),
      sendTransaction = (\<lambda>tx. Some ''signature'')\<rparr>"

definition stampedView :: V3BalanceInfo where
  "stampedView =
     \<lparr>totalBalance = 1 / 50,
      commitments =
        [\<lparr>commitment = exampleCommitment 10000000 1, amount = 1 / 100, nonce = 1,
          isSpent = False, address = ''A''\<rparr>,
         \<lparr>commitment = exampleCommitment 10000000 0, amount = 1 / 100, nonce = 0,
          isSpent = False, address = ''B''\<rparr>]\<rparr>"

text \<open>
  The inputs of a withdraw-with-change proof for the withdrawal of 0.005 SOL from the
  deposit of 0.01 SOL at nonce 0, with 7 as the secret of the change.
\<close>

definition balancedInputs :: WithdrawWithChangeProofInputs where
  "balancedInputs =
     \<lparr>oldCommitment = exampleCommitment 10000000 0,
      oldNullifier = toyPoseidon [toyPoseidon [exampleMasterKey, 0, 10000000],
                                  exampleCommitment 10000000 0],
      newCommitment = toyPoseidon [5000000, 7],
      withdrawAmount = 5000000,
      oldAmount = 10000000,
      oldSecret = toyPoseidon [exampleMasterKey, 0, 10000000],
      newAmount = 5000000,
      newSecret = 7\<rparr>"

section \<open>Properties\<close>

lemma hexValue_hexDigit: "d < 16 \<Longrightarrow> hexValue (hexDigit d) = Some d"
  by (auto simp: hexValue_def hexDigit_def Let_def)

lemma hexValue_lt16: "hexValue c = Some d \<Longrightarrow> d < 16"
  by (auto simp: hexValue_def Let_def split: if_splits)

lemma hexValue_zero: "hexValue (CHR ''0'') = Some 0"
  by (simp add: hexValue_def)

lemma hexDigitsValue_append:
  "hexDigitsValue acc (xs @ ys) =
     (case hexDigitsValue acc xs of None \<Rightarrow> None | Some v \<Rightarrow> hexDigitsValue v ys)"
  by (induction xs arbitrary: acc) (auto split: option.splits)

lemma hexDigitsValue_toString16: "hexDigitsValue 0 (toString16 n) = Some n"
proof (induction n rule: toString16.induct)
  case (1 n)
  show ?case
  proof (cases "n < 16")
    case True
    then show ?thesis by (subst toString16.simps) (simp add: hexValue_hexDigit)
  next
    case False
    with 1 have "hexDigitsValue 0 (toString16 (n div 16)) = Some (n div 16)" by simp
    with False show ?thesis
      by (subst toString16.simps) (simp add: hexDigitsValue_append hexValue_hexDigit)
  qed
qed

lemma length_toString16_le: "0 < k \<Longrightarrow> n < 16 ^ k \<Longrightarrow> length (toString16 n) \<le> k"
proof (induction n arbitrary: k rule: toString16.induct)
  case (1 n)
  show ?case
  proof (cases "n < 16")
    case True
    with 1(2) show ?thesis by (subst toString16.simps) simp
  next
    case False
    from False 1(3) have "1 < k"
      by (metis One_nat_def Suc_lessI 1(2) power_one_right)
    then obtain j where k: "k = Suc j" and j: "0 < j"
      by (cases k) auto
    from 1(3) k have "n div 16 < 16 ^ j"
      by (simp add: less_mult_imp_div_less mult.commute)
    with 1(1) False j have "length (toString16 (n div 16)) \<le> j" by simp
    with False k show ?thesis by (subst toString16.simps) simp
  qed
qed

lemma length_toString16_gt: "16 ^ k \<le> n \<Longrightarrow> k < length (toString16 n)"
proof (induction n arbitrary: k rule: toString16.induct)
  case (1 n)
  show ?case
  proof (cases "n < 16")
    case True
    have "k = 0"
    proof (rule ccontr)
      assume "k \<noteq> 0"
      then have "(16::nat) ^ 1 \<le> 16 ^ k" by (intro power_increasing) auto
      with 1(2) True show False by simp
    qed
    with True show ?thesis by (subst toString16.simps) simp
  next
    case False
    show ?thesis
    proof (cases k)
      case 0
      with False show ?thesis by (subst toString16.simps) simp
    next
      case (Suc j)
      with 1(2) have "16 ^ j \<le> n div 16"
        by (simp add: less_eq_div_iff_mult_less_eq mult.commute)
      with 1(1) False have "j < length (toString16 (n div 16))" by simp
      with False Suc show ?thesis by (subst toString16.simps) simp
    qed
  qed
qed

lemma hexDigitsValue_replicate_zero:
  "hexDigitsValue 0 (replicate k (CHR ''0'') @ s) = hexDigitsValue 0 s"
  by (induction k) (simp_all add: hexValue_zero)

lemma unat_byte_of_nat: "h < 16 \<Longrightarrow> l < 16 \<Longrightarrow> unat (of_nat (16 * h + l) :: byte) = 16 * h + l"
proof -
  assume "h < 16" "l < 16"
  then have "16 * h + l < 256" by simp
  then have "unat (word_of_nat (16 * h + l) :: byte) = 16 * h + l"
    unfolding unat_of_nat by simp
  then show ?thesis by simp
qed

lemma bufferFromHex_value:
  "hexDigitsValue acc s = Some v \<Longrightarrow>
     foldl (\<lambda>acc b. 256 * acc + unat b) acc (bufferFromHex s) = v div 16 ^ (length s mod 2)
     \<and> length (bufferFromHex s) = length s div 2"
proof (induction s arbitrary: acc rule: bufferFromHex.induct)
  case 1
  then show ?case by simp
next
  case (2 c)
  then obtain d where "hexValue c = Some d" "v = 16 * acc + d"
    by (auto split: option.splits)
  moreover from this have "d < 16" by (auto dest: hexValue_lt16)
  ultimately show ?case by simp
next
  case (3 a b rest)
  then obtain h l where h: "hexValue a = Some h" and l: "hexValue b = Some l"
    and rest: "hexDigitsValue (16 * (16 * acc + h) + l) rest = Some v"
    by (auto split: option.splits)
  from h l have "h < 16" "l < 16" by (auto dest: hexValue_lt16)
  then have u: "unat (of_nat (16 * h + l) :: byte) = 16 * h + l"
    by (rule unat_byte_of_nat)
  have acc: "256 * acc + unat (of_nat (16 * h + l) :: byte) = 16 * (16 * acc + h) + l"
    unfolding u by simp
  have unfold: "bufferFromHex (a # b # rest) = of_nat (16 * h + l) # bufferFromHex rest"
    using h l by (simp del: of_nat_add of_nat_mult)
  have len: "length (a # b # rest) mod 2 = length rest mod 2"
    "length (a # b # rest) div 2 = Suc (length rest div 2)"
    by simp_all
  from 3(1)[OF h l rest] show ?case
    unfolding unfold len foldl_Cons acc by simp
qed

lemma hexDigitsValue_bufferToHexString:
  "hexDigitsValue acc (bufferToHexString bs) = Some (foldl (\<lambda>acc b. 256 * acc + unat b) acc bs)"
proof (induction bs arbitrary: acc)
  case Nil
  show ?case by simp
next
  case (Cons b bs)
  have lt: "unat b div 16 < 16"
  proof -
    have "unat b < 2 ^ LENGTH(8)" by (rule unsigned_less)
    then show ?thesis by (simp add: less_mult_imp_div_less)
  qed
  have eq: "16 * (16 * acc + unat b div 16) + unat b mod 16 = 256 * acc + unat b"
    by simp
  have "hexDigitsValue acc (bufferToHexString (b # bs)) =
          hexDigitsValue (16 * (16 * acc + unat b div 16) + unat b mod 16) (bufferToHexString bs)"
    using lt by (simp add: hexValue_hexDigit)
  then show ?case unfolding eq Cons by simp
qed

lemma bufferToBigInt_value: "bs \<noteq> [] \<Longrightarrow> bufferToBigInt bs = Inr (beValue bs)"
proof -
  assume "bs \<noteq> []"
  then have "bufferToHexString bs \<noteq> []" by (cases bs) simp_all
  then show ?thesis
    by (simp add: bufferToBigInt_def bigIntOfHex_def beValue_def hexDigitsValue_bufferToHexString)
qed


lemma length_padStart: "length (padStart s n c) = max n (length s)"
  by (simp add: padStart_def)

lemma hexDigitsValue_padStart:
  "hexDigitsValue 0 (padStart (toString16 v) n (CHR ''0'')) = Some v"
  by (simp add: padStart_def hexDigitsValue_replicate_zero hexDigitsValue_toString16)

lemma pow2_pow16: "(2::nat) ^ (8 * len) = 16 ^ (2 * len)"
proof -
  have "(2::nat) ^ (8 * len) = (2 ^ 4) ^ (2 * len)"
    unfolding power_mult [symmetric] by simp
  then show ?thesis by simp
qed

lemma pow2_pow16_Suc: "(2::nat) ^ (8 * len + 4) = 16 ^ (Suc (2 * len))"
  unfolding power_add pow2_pow16 by simp

lemma length_toString16_pos: "0 < length (toString16 n)"
  by (subst toString16.simps) simp

lemma bigIntToBuffer_in_range:
  assumes "v < 2 ^ (8 * len)"
  shows "length (bigIntToBuffer v len) = len \<and> beValue (bigIntToBuffer v len) = v"
proof (cases "len = 0")
  case True
  with assms have "v = 0" by simp
  with True show ?thesis
    by (simp add: bigIntToBuffer_def padStart_def beValue_def toString16.simps)
next
  case False
  let ?s = "padStart (toString16 v) (len * 2) (CHR ''0'')"
  from assms have "v < 16 ^ (2 * len)" by (simp add: pow2_pow16)
  with False have "length (toString16 v) \<le> 2 * len"
    by (intro length_toString16_le) auto
  then have len: "length ?s = 2 * len"
    by (simp add: length_padStart)
  from bufferFromHex_value [OF hexDigitsValue_padStart, of v "len * 2"] len
  show ?thesis
    by (simp add: bigIntToBuffer_def beValue_def)
qed

lemma bigIntToBuffer_one_digit_over:
  assumes "2 ^ (8 * len) \<le> v" and "v < 2 ^ (8 * len + 4)"
  shows "length (bigIntToBuffer v len) = len \<and> beValue (bigIntToBuffer v len) = v div 16"
proof -
  let ?s = "padStart (toString16 v) (len * 2) (CHR ''0'')"
  from assms(1) have "2 * len < length (toString16 v)"
    by (intro length_toString16_gt) (simp add: pow2_pow16)
  moreover from assms(2) have "length (toString16 v) \<le> Suc (2 * len)"
    by (intro length_toString16_le) (simp_all add: pow2_pow16_Suc)
  ultimately have len: "length ?s = Suc (2 * len)"
    by (simp add: length_padStart)
  from bufferFromHex_value [OF hexDigitsValue_padStart, of v "len * 2"] len
  show ?thesis
    by (simp add: bigIntToBuffer_def beValue_def)
qed

lemma bigIntToBuffer_too_wide:
  assumes "2 ^ (8 * len + 4) \<le> v"
  shows "len < length (bigIntToBuffer v len)"
proof -
  let ?s = "padStart (toString16 v) (len * 2) (CHR ''0'')"
  from assms have "Suc (2 * len) < length (toString16 v)"
    by (intro length_toString16_gt) (simp add: pow2_pow16_Suc)
  then have len: "2 * len + 2 \<le> length ?s"
    by (simp add: length_padStart)
  from bufferFromHex_value [OF hexDigitsValue_padStart, of v "len * 2"]
  have "length (bigIntToBuffer v len) = length ?s div 2"
    by (simp add: bigIntToBuffer_def)
  with len show ?thesis by simp
qed

lemma getWalletSignature_cached:
  "cachedSignature s = Some sig \<Longrightarrow> getWalletSignature w s = (Inr sig, s)"
  by (simp add: getWalletSignature_def)


lemma bufferToHexString_eq_Nil: "bufferToHexString bs = [] \<longleftrightarrow> bs = []"
  by (cases bs) simp_all

lemma deriveMasterKey_cached:
  "cachedSignature s = Some sig \<Longrightarrow>
     deriveMasterKey w s =
       (if sig = [] then Inl SyntaxError else Inr (int (beValue (take 31 sig))), s)"
proof (cases "sig = []")
  case True
  assume "cachedSignature s = Some sig"
  with True show ?thesis
    by (simp add: deriveMasterKey_def getWalletSignature_cached bigIntOfHex_def)
next
  case False
  assume c: "cachedSignature s = Some sig"
  from False have "take 31 sig \<noteq> []" by (cases sig) simp_all
  from bufferToBigInt_value [OF this]
  have "bigIntOfHex (bufferToHexString (take 31 sig)) = Inr (beValue (take 31 sig))"
    by (simp add: bufferToBigInt_def)
  with False c show ?thesis
    by (simp add: deriveMasterKey_def getWalletSignature_cached)
qed

lemma deriveSecret_cached:
  "cachedSignature s = Some sig \<Longrightarrow>
     deriveSecret E w n a s =
       (if sig = [] then Inl SyntaxError
        else Inr (poseidon E [int (beValue (take 31 sig)), n, a]), s)"
  by (simp add: deriveSecret_def deriveMasterKey_cached)


lemma scanNonces_tried:
  "\<exists>ys. fst (snd (scanNonces E w c a m n st)) = fst (snd st) @ ys"
proof (induction E w c a m n st rule: scanNonces.induct)
  case (1 E w c amount maxNonce nonce owned tried s)
  show ?case
  proof (cases "nonce < maxNonce")
    case False
    then show ?thesis by (simp add: scanNonces.simps)
  next
    case True
    obtain r s' where d: "deriveSecret E w nonce amount s = (r, s')"
      by (cases "deriveSecret E w nonce amount s")
    show ?thesis
    proof (cases r)
      case (Inl e)
      with 1(1)[OF True d[symmetric]] True d show ?thesis
        by (subst scanNonces.simps) auto
    next
      case (Inr secret)
      show ?thesis
      proof (cases "poseidon E [amount, secret] = cc_commitment c")
        case True
        with \<open>nonce < maxNonce\<close> d Inr show ?thesis
          by (subst scanNonces.simps) auto
      next
        case False
        with 1(2)[OF True d[symmetric] _ False] True d Inr show ?thesis
          by (subst scanNonces.simps) auto
      qed
    qed
  qed
qed


lemma scanAmounts_tried:
  "\<exists>ys. fst (snd (scanAmounts E w c as m st)) = fst (snd st) @ ys"
proof (induction as arbitrary: st)
  case Nil
  show ?case by simp
next
  case (Cons a as)
  from scanNonces_tried [of E w c a m 0 st] obtain ys where
    "fst (snd (scanNonces E w c a m 0 st)) = fst (snd st) @ ys" by blast
  moreover from Cons [of "scanNonces E w c a m 0 st"] obtain zs where
    "fst (snd (scanAmounts E w c as m (scanNonces E w c a m 0 st)))
       = fst (snd (scanNonces E w c a m 0 st)) @ zs" by blast
  ultimately show ?case by simp
qed

lemma scanNonces_cached_state:
  "cachedSignature (snd (snd st)) = Some sig \<Longrightarrow>
     snd (snd (scanNonces E w c a m n st)) = snd (snd st)"
proof (induction E w c a m n st rule: scanNonces.induct)
  case (1 E w c amount maxNonce nonce owned tried s)
  from 1(3) have cached: "cachedSignature s = Some sig" by simp
  note d = deriveSecret_cached [OF cached, of E w nonce amount]
  show ?case
  proof (cases "nonce < maxNonce")
    case False
    then show ?thesis by (simp add: scanNonces.simps)
  next
    case True
    show ?thesis
    proof (cases "sig = []")
      case True
      with d have d': "deriveSecret E w nonce amount s = (Inl SyntaxError, s)" by simp
      from 1(1)[OF \<open>nonce < maxNonce\<close> d'[symmetric]] cached \<open>nonce < maxNonce\<close> d'
      show ?thesis by (subst scanNonces.simps) simp
    next
      case False
      with d have d': "deriveSecret E w nonce amount s
          = (Inr (poseidon E [int (beValue (take 31 sig)), nonce, amount]), s)" by simp
      show ?thesis
      proof (cases "poseidon E [amount, poseidon E [int (beValue (take 31 sig)), nonce, amount]]
                      = cc_commitment c")
        case True
        with \<open>nonce < maxNonce\<close> d' show ?thesis
          by (subst scanNonces.simps) simp
      next
        case False
        from 1(2)[OF \<open>nonce < maxNonce\<close> d'[symmetric] _ False] cached \<open>nonce < maxNonce\<close> d' False
        show ?thesis by (subst scanNonces.simps) simp
      qed
    qed
  qed
qed

lemma scanAmounts_cached_state:
  "cachedSignature (snd (snd st)) = Some sig \<Longrightarrow>
     snd (snd (scanAmounts E w c as m st)) = snd (snd st)"
  by (induction as arbitrary: st) (simp_all add: scanNonces_cached_state)

lemma scanAll_cached_state:
  "cachedSignature (snd (snd st)) = Some sig \<Longrightarrow>
     snd (snd (scanAll E w cs as m st)) = snd (snd st)"
  by (induction cs arbitrary: st) (simp_all add: scanAmounts_cached_state)

lemma scanCommitments_cached_state:
  "cachedSignature s = Some sig \<Longrightarrow>
     snd (snd (scanCommitments E w cs as m s)) = s"
  by (simp add: scanCommitments_def scanAll_cached_state)

lemma getBalance_cached_state:
  "cachedSignature s = Some sig \<Longrightarrow> snd (getBalance E L w s) = s"
proof -
  assume c: "cachedSignature s = Some sig"
  have "s' = s" if "scanCommitments E w cs COMMON_AMOUNTS 100 s = (ow, tr, s')" for cs ow tr s'
    using scanCommitments_cached_state [OF c, of E w cs COMMON_AMOUNTS 100] that by simp
  then show ?thesis
    by (auto simp: getBalance_def split: option.splits sum.splits prod.splits)
qed

lemma scanNonces_cached_aux:
  "cachedSignature (snd (snd st)) = Some sig \<Longrightarrow> sig \<noteq> [] \<Longrightarrow>
     \<exists>tr'. scanNonces E w c a m n st =
           (fst st @ ownedAt E (int (beValue (take 31 sig))) c a m n, tr', snd (snd st))"
proof (induction E w c a m n st rule: scanNonces.induct)
  case (1 E w c amount maxNonce nonce owned tried s)
  let ?mk = "int (beValue (take 31 sig))"
  from 1(3) have cached: "cachedSignature s = Some sig" by simp
  have d: "deriveSecret E w nonce amount s = (Inr (poseidon E [?mk, nonce, amount]), s)"
    using cached 1(4) by (simp add: deriveSecret_cached)
  show ?case
  proof (cases "nonce < maxNonce")
    case False
    then show ?thesis by (simp add: scanNonces.simps ownedAt_def)
  next
    case True
    then have up: "[nonce .. maxNonce - 1] = nonce # [nonce + 1 .. maxNonce - 1]"
      by (simp add: upto_rec1)
    show ?thesis
    proof (cases "poseidon E [amount, poseidon E [?mk, nonce, amount]] = cc_commitment c")
      case True
      with \<open>nonce < maxNonce\<close> d up show ?thesis
        by (subst scanNonces.simps) (simp add: ownedAt_def candidate_def)
    next
      case False
      from 1(2)[OF True d[symmetric] _ False] cached 1(4)
      obtain tr' where "scanNonces E w c amount maxNonce (nonce + 1)
          (owned, tried @ [(cc_commitment c, amount, nonce)], s)
           = (owned @ ownedAt E ?mk c amount maxNonce (nonce + 1), tr', s)"
        by auto
      with True False d up show ?thesis
        by (subst scanNonces.simps) (simp add: ownedAt_def candidate_def)
    qed
  qed
qed

lemma scanNonces_cached:
  assumes "cachedSignature s = Some sig" and "sig \<noteq> []"
  shows "\<exists>tr'. scanNonces E w c a m n (ow, tr, s) =
           (ow @ ownedAt E (int (beValue (take 31 sig))) c a m n, tr', s)"
  using scanNonces_cached_aux [of "(ow, tr, s)" sig E w c a m n] assms by simp

lemma scanAmounts_cached:
  assumes "cachedSignature s = Some sig" and "sig \<noteq> []"
  shows "\<exists>tr'. scanAmounts E w c as m (ow, tr, s) =
           (ow @ concat (map (\<lambda>a. ownedAt E (int (beValue (take 31 sig))) c a m 0) as), tr', s)"
proof (induction as arbitrary: ow tr)
  case Nil
  show ?case by simp
next
  case (Cons a as)
  from scanNonces_cached [OF assms, of E w c a m 0 ow tr] obtain tr1 where
    1: "scanNonces E w c a m 0 (ow, tr, s)
          = (ow @ ownedAt E (int (beValue (take 31 sig))) c a m 0, tr1, s)" by blast
  from Cons [of "ow @ ownedAt E (int (beValue (take 31 sig))) c a m 0" tr1] 1
  show ?case by simp
qed

lemma scanAll_cached:
  assumes "cachedSignature s = Some sig" and "sig \<noteq> []"
  shows "\<exists>tr'. scanAll E w cs as m (ow, tr, s) =
           (ow @ scanResult E (int (beValue (take 31 sig))) cs as m, tr', s)"
proof (induction cs arbitrary: ow tr)
  case Nil
  show ?case by (simp add: scanResult_def)
next
  case (Cons c cs)
  from scanAmounts_cached [OF assms, of E w c as m ow tr] obtain tr1 where
    1: "scanAmounts E w c as m (ow, tr, s)
          = (ow @ concat (map (\<lambda>a. ownedAt E (int (beValue (take 31 sig))) c a m 0) as), tr1, s)"
    by blast
  from Cons [of "ow @ concat (map (\<lambda>a. ownedAt E (int (beValue (take 31 sig))) c a m 0) as)" tr1] 1
  show ?case by (simp add: scanResult_def)
qed

lemma scanCommitments_cached:
  assumes "cachedSignature s = Some sig" and "sig \<noteq> []"
  shows "\<exists>tr'. scanCommitments E w cs as m s =
           (scanResult E (int (beValue (take 31 sig))) cs as m, tr', s)"
  using scanAll_cached [OF assms, of E w cs as m "[]" "[]"]
  by (simp add: scanCommitments_def)

lemma compareFn_le_iff:
  "compareFn a b \<le> 0 \<longleftrightarrow>
     (\<not> isSpent a \<and> isSpent b) \<or> (isSpent a = isSpent b \<and> blockTime b \<le> blockTime a)"
  by (auto simp: compareFn_def)

lemma compareFn_total: "\<not> compareFn a b \<le> 0 \<Longrightarrow> compareFn b a \<le> 0"
  by (auto simp: compareFn_def split: if_splits)

lemma compareFn_trans: "compareFn a b \<le> 0 \<Longrightarrow> compareFn b c \<le> 0 \<Longrightarrow> compareFn a c \<le> 0"
  by (auto simp: compareFn_le_iff)

lemma set_insertBy: "set (insertBy cmp x ys) = insert x (set ys)"
  by (induction ys) auto

lemma mset_insertBy: "mset (insertBy cmp x ys) = add_mset x (mset ys)"
  by (induction ys) auto

lemma mset_sortBy: "mset (sortBy cmp xs) = mset xs"
  by (induction xs) (simp_all add: sortBy_def mset_insertBy)

lemma sorted_insertBy:
  "sorted_wrt (\<lambda>a b. compareFn a b \<le> 0) ys \<Longrightarrow>
     sorted_wrt (\<lambda>a b. compareFn a b \<le> 0) (insertBy compareFn x ys)"
proof (induction ys)
  case Nil
  show ?case by simp
next
  case (Cons y ys)
  show ?case
  proof (cases "compareFn x y \<le> 0")
    case True
    with Cons.prems show ?thesis
      by (auto intro: compareFn_trans)
  next
    case False
    then have "compareFn y x \<le> 0" by (rule compareFn_total)
    with False Cons show ?thesis
      by (auto simp: set_insertBy)
  qed
qed

lemma sorted_sortBy: "sorted_wrt (\<lambda>a b. compareFn a b \<le> 0) (sortBy compareFn xs)"
  by (induction xs) (simp_all add: sortBy_def sorted_insertBy)

lemma filter_insertBy_tie:
  "filter (\<lambda>e. isSpent e = sp \<and> blockTime e = t) (insertBy compareFn x ys) =
     (if isSpent x = sp \<and> blockTime x = t
      then x # filter (\<lambda>e. isSpent e = sp \<and> blockTime e = t) ys
      else filter (\<lambda>e. isSpent e = sp \<and> blockTime e = t) ys)"
  by (induction ys) (auto simp: compareFn_def)

lemma filter_sortBy_tie:
  "filter (\<lambda>e. isSpent e = sp \<and> blockTime e = t) (sortBy compareFn xs) =
     filter (\<lambda>e. isSpent e = sp \<and> blockTime e = t) xs"
  by (induction xs) (simp_all add: sortBy_def filter_insertBy_tie)

lemma length_sortBy: "length (sortBy cmp xs) = length xs"
  using mset_sortBy [of cmp xs] by (metis size_mset)

lemma beValue_snoc: "beValue (bs @ [b]) = 256 * beValue bs + unat b"
  by (simp add: beValue_def)

lemma length_bytesBE: "length (bytesBE k v) = k"
  by (induction k arbitrary: v) simp_all

lemma unat_byte_of_int_mod: "unat (of_int (v mod 256) :: byte) = nat (v mod 256)"
proof -
  have "0 \<le> v mod 256" "v mod 256 < 256" by simp_all
  then have "uint (word_of_int (v mod 256) :: byte) = v mod 256"
    by (simp add: uint_word_of_int)
  then show ?thesis
    by (metis unat_eq_nat_uint)
qed

lemma beValue_bytesBE: "beValue (bytesBE k v) = nat (v mod 256 ^ k)"
proof (induction k arbitrary: v)
  case 0
  show ?case by (simp add: beValue_def)
next
  case (Suc k)
  have "256 * nat (v div 256 mod 256 ^ k) + nat (v mod 256)
          = nat (256 * (v div 256 mod 256 ^ k) + v mod 256)"
    by (simp add: nat_add_distrib nat_mult_distrib)
  also have "256 * (v div 256 mod 256 ^ k) + v mod 256 = v mod 256 ^ Suc k"
    using zmod_zmult2_eq [of "256 ^ k" v 256] by simp
  finally show ?case
    by (simp add: beValue_snoc Suc unat_byte_of_int_mod)
qed

lemma beValue_toBytes32: "0 \<le> c \<Longrightarrow> c < 2 ^ 256 \<Longrightarrow> int (beValue (toBytes32 c)) = c"
proof -
  assume "0 \<le> c" "c < 2 ^ 256"
  have "(256::int) ^ 32 = 2 ^ 256" by simp
  with \<open>0 \<le> c\<close> \<open>c < 2 ^ 256\<close> show ?thesis
    by (simp add: toBytes32_def beValue_bytesBE)
qed

lemma parse_accountData:
  "0 \<le> c \<Longrightarrow> c < 2 ^ 256 \<Longrightarrow>
     parseCommitmentAccount (ad, accountData c) = Inr \<lparr>cc_commitment = c, cc_address = ad\<rparr>"
  by (simp add: parseCommitmentAccount_def accountData_def toBytes32_def length_bytesBE
      beValue_toBytes32 [unfolded toBytes32_def])

lemma exampleSignature_not_Nil: "exampleSignature \<noteq> []"
  by (simp add: exampleSignature_def)

lemma signedSession_cached: "cachedSignature signedSession = Some exampleSignature"
  by (simp add: signedSession_def)

lemma exampleCommitment_eq:
  assumes "0 \<le> a" "a < 2 ^ 40" "0 \<le> k" "k < 2 ^ 40"
  shows "exampleCommitment a k
           = a * 2 ^ 120 + (exampleMasterKey mod 2 ^ 40) * 2 ^ 80 + k * 2 ^ 40 + a"
proof -
  define M where "M = exampleMasterKey mod 2 ^ 40"
  have M: "0 \<le> M" "M < 2 ^ 40" by (simp_all add: M_def)
  have a: "a mod 2 ^ 40 = a" and k: "k mod 2 ^ 40 = k"
    using assms by simp_all
  have "0 \<le> M * 2 ^ 80 + k * 2 ^ 40 + a" using M assms by simp
  moreover have "M * 2 ^ 80 + k * 2 ^ 40 + a < 2 ^ 120" using M assms by simp
  ultimately have "(M * 2 ^ 80 + k * 2 ^ 40 + a) mod 2 ^ 120 = M * 2 ^ 80 + k * 2 ^ 40 + a"
    by simp
  then show ?thesis
    using a k by (simp add: exampleCommitment_def candidate_def toyCrypto_def M_def)
qed

lemma exampleCommitment_range:
  assumes "0 \<le> a" "a < 2 ^ 40" "0 \<le> k" "k < 2 ^ 40"
  shows "0 \<le> exampleCommitment a k \<and> exampleCommitment a k < 2 ^ 256"
proof -
  define M where "M = exampleMasterKey mod 2 ^ 40"
  have M: "0 \<le> M" "M < 2 ^ 40" by (simp_all add: M_def)
  show ?thesis
    unfolding exampleCommitment_eq [OF assms] M_def [symmetric] using M assms by simp
qed

lemma exampleCommitment_inj:
  assumes "0 \<le> a" "a < 2 ^ 40" "0 \<le> k" "k < 2 ^ 40"
    and "0 \<le> a'" "a' < 2 ^ 40" "0 \<le> k'" "k' < 2 ^ 40"
  shows "exampleCommitment a k = exampleCommitment a' k' \<longleftrightarrow> a = a' \<and> k = k'"
proof -
  define M where "M = exampleMasterKey mod 2 ^ 40"
  have "a = a' \<and> k = k'"
    if eq: "a * 2 ^ 120 + M * 2 ^ 80 + k * 2 ^ 40 + a = a' * 2 ^ 120 + M * 2 ^ 80 + k' * 2 ^ 40 + a'"
  proof -
    have "\<not> a < a'" using eq assms by simp
    moreover have "\<not> a' < a" using eq assms by simp
    ultimately have "a = a'" by simp
    with eq show ?thesis by simp
  qed
  then show ?thesis
    unfolding exampleCommitment_eq [OF assms(1-4)] exampleCommitment_eq [OF assms(5-8)]
      M_def [symmetric]
    by auto
qed

lemma find_upto_none:
  "(\<And>j. n \<le> j \<Longrightarrow> j \<le> m \<Longrightarrow> \<not> P j) \<Longrightarrow> find P [n .. m] = None"
  by (simp add: find_None_iff)

lemma find_upto_first:
  "n \<le> k \<Longrightarrow> k \<le> m \<Longrightarrow> P k \<Longrightarrow> (\<And>j. n \<le> j \<Longrightarrow> j < k \<Longrightarrow> \<not> P j)
     \<Longrightarrow> find P [n .. m] = Some k"
proof (induction n m rule: upto.induct)
  case (1 i j)
  from 1(2,3) have "i \<le> j" by simp
  then have up: "[i .. j] = i # [i + 1 .. j]" by (simp add: upto_rec1)
  show ?case
  proof (cases "i = k")
    case True
    with 1(4) up show ?thesis by simp
  next
    case False
    with 1(2) have "i + 1 \<le> k" "i < k" by simp_all
    from 1(5)[OF _ \<open>i < k\<close>] have "\<not> P i" by simp
    moreover from 1(1)[OF \<open>i \<le> j\<close> \<open>i + 1 \<le> k\<close> 1(3,4)] 1(5)
    have "find P [i + 1 .. j] = Some k" by simp
    ultimately show ?thesis using up by simp
  qed
qed

lemma COMMON_AMOUNTS_range: "a \<in> set COMMON_AMOUNTS \<Longrightarrow> 0 \<le> a \<and> a < 2 ^ 40"
  by (auto simp: COMMON_AMOUNTS_def)

lemma toy_ownedAt:
  assumes "0 \<le> a" "a < 2 ^ 40" "0 \<le> a0" "a0 < 2 ^ 40" "0 \<le> k0" "k0 < 100"
  shows "ownedAt toyCrypto exampleMasterKey
           \<lparr>cc_commitment = exampleCommitment a0 k0, cc_address = ad\<rparr> a 100 0 =
         (if a = a0
          then [\<lparr>o_commitment = exampleCommitment a0 k0, o_address = ad, o_amount = a0,
                  o_secret = poseidon toyCrypto [exampleMasterKey, k0, a0], o_nonce = k0\<rparr>]
          else [])"
proof -
  let ?P = "\<lambda>k. candidate toyCrypto exampleMasterKey a k = exampleCommitment a0 k0"
  have P: "?P k \<longleftrightarrow> a = a0 \<and> k = k0" if "0 \<le> k" "k \<le> 99" for k
    using exampleCommitment_inj [of a k a0 k0] assms that
    by (simp add: exampleCommitment_def)
  show ?thesis
  proof (cases "a = a0")
    case True
    have "find ?P [0 .. 99] = Some k0"
    proof (rule find_upto_first)
      show "0 \<le> k0" "k0 \<le> 99" using assms by simp_all
      show "?P k0" using P [of k0] assms True by simp
      show "\<not> ?P j" if "0 \<le> j" "j < k0" for j
        using P [of j] that assms by simp
    qed
    with True show ?thesis by (simp add: ownedAt_def)
  next
    case False
    have "find ?P [0 .. 99] = None"
    proof (rule find_upto_none)
      show "\<not> ?P j" if "0 \<le> j" "j \<le> 99" for j
        using P [of j] that False by simp
    qed
    with False show ?thesis by (simp add: ownedAt_def)
  qed
qed

lemma toy_ownedAt_other:
  assumes "a \<in> set COMMON_AMOUNTS" "0 \<le> a0" "a0 < 2 ^ 40" "a0 \<notin> set COMMON_AMOUNTS"
    "0 \<le> k0" "k0 < 100"
  shows "ownedAt toyCrypto exampleMasterKey
           \<lparr>cc_commitment = exampleCommitment a0 k0, cc_address = ad\<rparr> a 100 0 = []"
  using toy_ownedAt [of a a0 k0 ad] assms COMMON_AMOUNTS_range [of a] by auto

lemma scanResult_tie:
  "scanResult toyCrypto exampleMasterKey
     [\<lparr>cc_commitment = exampleCommitment 10000000 0, cc_address = ''B''\<rparr>,
      \<lparr>cc_commitment = exampleCommitment 10000000 1, cc_address = ''A''\<rparr>] COMMON_AMOUNTS 100 =
     [\<lparr>o_commitment = exampleCommitment 10000000 0, o_address = ''B'', o_amount = 10000000,
       o_secret = poseidon toyCrypto [exampleMasterKey, 0, 10000000], o_nonce = 0\<rparr>,
      \<lparr>o_commitment = exampleCommitment 10000000 1, o_address = ''A'', o_amount = 10000000,
       o_secret = poseidon toyCrypto [exampleMasterKey, 1, 10000000], o_nonce = 1\<rparr>]"
  by (simp add: scanResult_def COMMON_AMOUNTS_def toy_ownedAt)


lemma getBalance_cached:
  assumes "cachedSignature s = Some sig" and "sig \<noteq> []" and "publicKey w \<noteq> None"
    and "getProgramAccounts L = Some accounts"
    and "parseCommitmentAccounts accounts = Inr cs"
  shows "getBalance E L w s =
     (Inr \<lparr>totalBalance =
             sum_list (map amount (filter (\<lambda>e. \<not> isSpent e)
               (commitmentsWithTime E L
                  (scanResult E (int (beValue (take 31 sig))) cs COMMON_AMOUNTS 100)))),
           commitments =
             map withoutBlockTime
               (sortedCommitments E L
                  (scanResult E (int (beValue (take 31 sig))) cs COMMON_AMOUNTS 100))\<rparr>, s)"
proof -
  from scanCommitments_cached [OF assms(1,2), of E w cs COMMON_AMOUNTS 100]
  obtain tr' where "scanCommitments E w cs COMMON_AMOUNTS 100 s =
      (scanResult E (int (beValue (take 31 sig))) cs COMMON_AMOUNTS 100, tr', s)" by blast
  with assms(3,4,5) show ?thesis
    by (simp add: getBalance_def)
qed

lemma exampleWallet_connected: "publicKey exampleWallet \<noteq> None"
  by (simp add: exampleWallet_def)

lemma parse_tie:
  "parseCommitmentAccounts
     [(''B'', accountData (exampleCommitment 10000000 0)),
      (''A'', accountData (exampleCommitment 10000000 1))] =
   Inr [\<lparr>cc_commitment = exampleCommitment 10000000 0, cc_address = ''B''\<rparr>,
        \<lparr>cc_commitment = exampleCommitment 10000000 1, cc_address = ''A''\<rparr>]"
  using exampleCommitment_range [of 10000000 0] exampleCommitment_range [of 10000000 1]
  by (simp add: parse_accountData)

lemma getBalance_tie:
  "getBalance toyCrypto tieLedger exampleWallet signedSession = (Inr tieView, signedSession)"
proof -
  have L: "getProgramAccounts tieLedger =
      Some [(''B'', accountData (exampleCommitment 10000000 0)),
            (''A'', accountData (exampleCommitment 10000000 1))]"
    by (simp add: tieLedger_def)
  have spent: "getAccountInfo tieLedger a = Some False" for a
    by (simp add: tieLedger_def)
  have bt: "blockTimeOf tieLedger a = 1700000000" for a
    by (simp add: blockTimeOf_def tieLedger_def)
  show ?thesis
    unfolding getBalance_cached [OF signedSession_cached exampleSignature_not_Nil
        exampleWallet_connected L parse_tie]
      exampleMasterKey_def [symmetric] scanResult_tie
    by (simp add: commitmentsWithTime_def sortedCommitments_def timedEntry_def spent bt
        sortBy_def compareFn_def withoutBlockTime_def tieView_def)
qed

section \<open>Claims about the encodings\<close>

text \<open>
  C8. For every integer \<open>v\<close> with \<open>0 \<le> v < 2^256\<close>, decoding the 32-byte big-endian
  encoding of \<open>v\<close> returns \<open>v\<close>: \<open>bufferToBigInt(bigIntToBuffer(v, 32)) = v\<close>.
\<close>

theorem roundtrip32:
  "v < 2 ^ 256 \<Longrightarrow> bufferToBigInt (bigIntToBuffer v 32) = Inr v"
proof -
  assume "v < 2 ^ 256"
  then have "v < 2 ^ (8 * 32)" by simp
  from bigIntToBuffer_in_range [OF this]
  have l: "length (bigIntToBuffer v 32) = 32" and b: "beValue (bigIntToBuffer v 32) = v"
    by simp_all
  from l have "bigIntToBuffer v 32 \<noteq> []" by auto
  from bufferToBigInt_value [OF this] b show ?thesis by simp
qed

theorem roundtrip32_witness:
  "(4660 :: nat) < 2 ^ 256 \<and> bufferToBigInt (bigIntToBuffer 4660 32) = Inr 4660"
  using roundtrip32 [of 4660] by simp

text \<open>
  C10, as the code has it. For \<open>v < 2^(8*length)\<close> the buffer has exactly \<open>length\<close>
  bytes and denotes \<open>v\<close>. For \<open>v \<ge> 2^(8*length)\<close> the width is not enforced, but the
  buffer is strictly longer only from \<open>2^(8*length + 4)\<close> on: below that the digit
  string has an odd number of digits, \<open>Buffer.from\<close> drops the last one, and the buffer
  has exactly \<open>length\<close> bytes and denotes \<open>v div 16\<close>.
\<close>

theorem bigIntToBuffer_width:
  "(v < 2 ^ (8 * len) \<longrightarrow>
      length (bigIntToBuffer v len) = len \<and> beValue (bigIntToBuffer v len) = v)
   \<and> (2 ^ (8 * len) \<le> v \<and> v < 2 ^ (8 * len + 4) \<longrightarrow>
      length (bigIntToBuffer v len) = len \<and> beValue (bigIntToBuffer v len) = v div 16)
   \<and> (2 ^ (8 * len + 4) \<le> v \<longrightarrow> len < length (bigIntToBuffer v len))"
  using bigIntToBuffer_in_range [of v len] bigIntToBuffer_one_digit_over [of len v]
    bigIntToBuffer_too_wide [of len v]
  by blast

theorem bigIntToBuffer_width_witness:
  "((255 :: nat) < 2 ^ (8 * 1)
      \<and> length (bigIntToBuffer 255 1) = 1 \<and> beValue (bigIntToBuffer 255 1) = 255)
   \<and> ((2 :: nat) ^ (8 * 1) \<le> 256 \<and> (256 :: nat) < 2 ^ (8 * 1 + 4)
      \<and> length (bigIntToBuffer 256 1) = 1 \<and> beValue (bigIntToBuffer 256 1) = 256 div 16)
   \<and> ((2 :: nat) ^ (8 * 1 + 4) \<le> 4096 \<and> 1 < length (bigIntToBuffer 4096 1))"
  using bigIntToBuffer_width [of 255 1] bigIntToBuffer_width [of 256 1]
    bigIntToBuffer_width [of 4096 1]
  by simp

text \<open>
  C10, as the claim states it, fails at \<open>v = 256\<close>, \<open>length = 1\<close>: the value is out of
  range, and the buffer \<open>10\<close> is not longer than one byte.
\<close>

theorem bigIntToBuffer_overflow_keeps_width:
  "(2 :: nat) ^ (8 * 1) \<le> 256 \<and> \<not> 1 < length (bigIntToBuffer 256 1)"
  by (simp add: bigIntToBuffer_def padStart_def hexValue_def hexDigit_def toString16.simps)

section \<open>Claims about the secret manager\<close>

text \<open>
  C5. After the wallet has rejected a signature request, every later request of the
  session fails with the same rejection error and does not call \<open>signMessage\<close> (the count
  of calls stays), whatever wallet is passed; \<open>clearCache\<close> resets the flag, and the next
  request prompts the wallet again.
\<close>

theorem rejection_is_terminal:
  assumes "cachedSignature s = None" and "\<not> signatureRejected s"
    and "publicKey w \<noteq> None" and "signMessage w = Some f"
    and "f (signCalls s) = Throws e" and "isUserRejection e"
    and "s1 = s\<lparr>signatureRejected := True, signCalls := Suc (signCalls s)\<rparr>"
  shows "getWalletSignature w s = (Inl SignatureRejected, s1)
       \<and> getWalletSignatures ws s1 = (replicate (length ws) (Inl SignatureRejected), s1)
       \<and> cachedSignature (clearCache s1) = None
       \<and> \<not> signatureRejected (clearCache s1)
       \<and> (publicKey w' \<noteq> None \<and> signMessage w' \<noteq> None \<longrightarrow>
            signCalls (snd (getWalletSignature w' (clearCache s1))) = Suc (signCalls s1))"
proof -
  from assms have first: "getWalletSignature w s = (Inl SignatureRejected, s1)"
    by (simp add: getWalletSignature_def)
  have again: "getWalletSignature w'' s1 = (Inl SignatureRejected, s1)" for w''
    using assms(1,7) by (simp add: getWalletSignature_def)
  have run: "getWalletSignatures ws s1 = (replicate (length ws) (Inl SignatureRejected), s1)"
    by (induction ws) (simp_all add: again)
  have reset: "signCalls (snd (getWalletSignature w' (clearCache s1))) = Suc (signCalls s1)"
    if "publicKey w' \<noteq> None" "signMessage w' \<noteq> None"
    using that
    by (auto simp: getWalletSignature_def clearCache_def split: sign_response.splits)
  from first run reset assms(1,7) show ?thesis
    by (simp add: clearCache_def)
qed

theorem rejection_is_terminal_witness:
  "getWalletSignature rejectingWallet freshSession =
     (Inl SignatureRejected, freshSession\<lparr>signatureRejected := True, signCalls := 1\<rparr>)
   \<and> getWalletSignatures [rejectingWallet, exampleWallet]
        (freshSession\<lparr>signatureRejected := True, signCalls := 1\<rparr>) =
       ([Inl SignatureRejected, Inl SignatureRejected],
        freshSession\<lparr>signatureRejected := True, signCalls := 1\<rparr>)
   \<and> signCalls (snd (getWalletSignature exampleWallet
        (clearCache (freshSession\<lparr>signatureRejected := True, signCalls := 1\<rparr>)))) = 2"
proof -
  let ?e = "\<lparr>err_message = Some ''User rejected the request.'',
             err_name = Some ''WalletSignMessageError'', err_code = NumCode 4001\<rparr>"
  have rej: "isUserRejection ?e"
    by (simp add: isUserRejection_def)
  have "cachedSignature freshSession = None" "\<not> signatureRejected freshSession"
    "publicKey rejectingWallet \<noteq> None" "signMessage rejectingWallet = Some (\<lambda>n. Throws ?e)"
    "(\<lambda>n. Throws ?e) (signCalls freshSession) = Throws ?e"
    "freshSession\<lparr>signatureRejected := True, signCalls := 1\<rparr>
       = freshSession\<lparr>signatureRejected := True, signCalls := Suc (signCalls freshSession)\<rparr>"
    by (simp_all add: freshSession_def rejectingWallet_def)
  from rejection_is_terminal [OF this(1-5) rej this(6),
      of "[rejectingWallet, exampleWallet]" exampleWallet]
  show ?thesis
    by (simp add: exampleWallet_def freshSession_def)
qed



section \<open>Claims about the scan and the balance\<close>

text \<open>
  C1, at a failing input. The ledger holds one commitment, the wallet's own for
  0.01 SOL at nonce 0, and the signature is cached. The first derivation of the scan,
  (0.01 SOL, nonce 0), matches; the second entry of the log is a further derivation for
  the same element, (0.05 SOL, nonce 0): \<open>break\<close> leaves the loop over the nonces only,
  and the loop over the amounts goes on.
\<close>

theorem scan_continues_after_match:
  assumes "cachedSignature s = Some sig" and "sig \<noteq> []"
    and "c = computeCommitment E 10000000 (poseidon E [int (beValue (take 31 sig)), 0, 10000000])"
  shows "take 2 (fst (snd (scanCommitments E w [\<lparr>cc_commitment = c, cc_address = a\<rparr>]
                              COMMON_AMOUNTS 100 s)))
           = [(c, 10000000, 0), (c, 50000000, 0)]"
proof -
  let ?cc = "\<lparr>cc_commitment = c, cc_address = a\<rparr>"
  let ?mk = "int (beValue (take 31 sig))"
  let ?r0 = "\<lparr>o_commitment = c, o_address = a, o_amount = 10000000,
                o_secret = poseidon E [?mk, 0, 10000000], o_nonce = 0\<rparr>"
  let ?rest = "[100000000, 500000000, 1000000000, 5000000000, 10000000000, 50000000000,
                100000000000 :: int]"
  have d: "deriveSecret E w n x s = (Inr (poseidon E [?mk, n, x]), s)" for n x
    using assms(1,2) by (simp add: deriveSecret_cached)
  have first: "scanNonces E w ?cc 10000000 100 0 ([], [], s) = ([?r0], [(c, 10000000, 0)], s)"
    using assms(3) by (subst scanNonces.simps) (simp add: d computeCommitment_def)
  have "\<exists>ys. fst (snd (scanNonces E w ?cc 50000000 100 0 ([?r0], [(c, 10000000, 0)], s)))
          = [(c, 10000000, 0), (c, 50000000, 0)] @ ys"
  proof (cases "poseidon E [50000000, poseidon E [?mk, 0, 50000000]] = c")
    case True
    then show ?thesis by (subst scanNonces.simps) (simp add: d)
  next
    case False
    from scanNonces_tried [of E w ?cc 50000000 100 1
        "([?r0], [(c, 10000000, 0), (c, 50000000, 0)], s)"]
    obtain ys where "fst (snd (scanNonces E w ?cc 50000000 100 1
        ([?r0], [(c, 10000000, 0), (c, 50000000, 0)], s)))
          = [(c, 10000000, 0), (c, 50000000, 0)] @ ys" by auto
    with False show ?thesis by (subst scanNonces.simps) (simp add: d)
  qed
  then obtain ys where second:
    "fst (snd (scanNonces E w ?cc 50000000 100 0 ([?r0], [(c, 10000000, 0)], s)))
       = [(c, 10000000, 0), (c, 50000000, 0)] @ ys" by blast
  from scanAmounts_tried [of E w ?cc ?rest 100
      "scanNonces E w ?cc 50000000 100 0 ([?r0], [(c, 10000000, 0)], s)"]
  obtain zs where
    "fst (snd (scanAmounts E w ?cc ?rest 100
        (scanNonces E w ?cc 50000000 100 0 ([?r0], [(c, 10000000, 0)], s))))
      = fst (snd (scanNonces E w ?cc 50000000 100 0 ([?r0], [(c, 10000000, 0)], s))) @ zs"
    by blast
  with second first show ?thesis
    by (simp add: scanCommitments_def COMMON_AMOUNTS_def)
qed

theorem scan_continues_after_match_witness:
  "take 2 (fst (snd (scanCommitments toyCrypto exampleWallet
       [\<lparr>cc_commitment = exampleCommitment 10000000 0, cc_address = ''B''\<rparr>]
       COMMON_AMOUNTS 100 signedSession)))
     = [(exampleCommitment 10000000 0, 10000000, 0), (exampleCommitment 10000000 0, 50000000, 0)]"
proof -
  have "exampleCommitment 10000000 0 =
      computeCommitment toyCrypto 10000000
        (poseidon toyCrypto [int (beValue (take 31 exampleSignature)), 0, 10000000])"
    by (simp add: exampleCommitment_def candidate_def computeCommitment_def exampleMasterKey_def)
  from scan_continues_after_match [OF signedSession_cached exampleSignature_not_Nil this]
  show ?thesis .
qed

text \<open>
  C4, as the code has it. In every view \<open>getBalance\<close> returns, unspent entries come
  before spent ones, and entries of the same status are in descending order of block
  time. Entries of the same status and block time are not ordered by address: they keep
  the order in which the scan found them, which is the order of the enumeration.
\<close>

theorem balance_view_order:
  assumes "getBalance E L w s = (Inr view, s')"
  shows "(\<forall>i j. i < j \<and> j < length (commitments view) \<longrightarrow>
            (isSpent (commitments view ! i) \<longrightarrow> isSpent (commitments view ! j))
          \<and> (isSpent (commitments view ! i) = isSpent (commitments view ! j) \<longrightarrow>
               blockTimeOf L (address (commitments view ! j))
                 \<le> blockTimeOf L (address (commitments view ! i))))
       \<and> (\<exists>accounts cs ownedCommitments tried.
            getProgramAccounts L = Some accounts
          \<and> parseCommitmentAccounts accounts = Inr cs
          \<and> scanCommitments E w cs COMMON_AMOUNTS 100 s = (ownedCommitments, tried, s')
          \<and> (\<forall>sp t. filter (\<lambda>e. isSpent e = sp \<and> blockTimeOf L (address e) = t) (commitments view)
                   = filter (\<lambda>e. isSpent e = sp \<and> blockTimeOf L (address e) = t)
                       (map (\<lambda>owned. withoutBlockTime (timedEntry E L owned)) ownedCommitments)))"
proof -
  from assms obtain accounts cs ownedCommitments tried where
    acc: "getProgramAccounts L = Some accounts"
    and cs: "parseCommitmentAccounts accounts = Inr cs"
    and sc: "scanCommitments E w cs COMMON_AMOUNTS 100 s = (ownedCommitments, tried, s')"
    and view: "commitments view = map withoutBlockTime (sortedCommitments E L ownedCommitments)"
    by (auto simp: getBalance_def split: if_splits option.splits sum.splits prod.splits)
  let ?ts = "sortedCommitments E L ownedCommitments"
  let ?xs = "commitmentsWithTime E L ownedCommitments"
  have ts: "?ts = sortBy compareFn ?xs" by (simp add: sortedCommitments_def)
  have bt: "blockTime e = blockTimeOf L (address e)" if "e \<in> set ?xs" for e
    using that by (auto simp: commitmentsWithTime_def timedEntry_def Let_def)
  have set_ts: "set ?ts = set ?xs"
    using mset_sortBy [of compareFn ?xs] unfolding ts by (metis set_mset_mset)
  have sorted: "sorted_wrt (\<lambda>a b. compareFn a b \<le> 0) ?ts"
    unfolding ts by (rule sorted_sortBy)
  have order: "(isSpent (commitments view ! i) \<longrightarrow> isSpent (commitments view ! j))
          \<and> (isSpent (commitments view ! i) = isSpent (commitments view ! j) \<longrightarrow>
               blockTimeOf L (address (commitments view ! j))
                 \<le> blockTimeOf L (address (commitments view ! i)))"
    if "i < j" "j < length (commitments view)" for i j
  proof -
    from that view have j: "j < length ?ts" and i: "i < length ?ts" by simp_all
    from sorted that(1) j have le: "compareFn (?ts ! i) (?ts ! j) \<le> 0"
      by (simp add: sorted_wrt_iff_nth_less)
    from i j set_ts have "?ts ! i \<in> set ?xs" "?ts ! j \<in> set ?xs"
      by (metis nth_mem)+
    then have "blockTime (?ts ! i) = blockTimeOf L (address (?ts ! i))"
      "blockTime (?ts ! j) = blockTimeOf L (address (?ts ! j))"
      by (simp_all add: bt)
    with le i j view show ?thesis
      by (auto simp: compareFn_le_iff withoutBlockTime_def)
  qed
  have stable: "filter (\<lambda>e. isSpent e = sp \<and> blockTimeOf L (address e) = t) (commitments view)
      = filter (\<lambda>e. isSpent e = sp \<and> blockTimeOf L (address e) = t)
          (map (\<lambda>owned. withoutBlockTime (timedEntry E L owned)) ownedCommitments)" for sp t
  proof -
    let ?P = "\<lambda>e. isSpent e = sp \<and> blockTimeOf L (address e) = t"
    let ?Q = "\<lambda>e. isSpent e = sp \<and> blockTime e = t"
    have PQ: "(?P \<circ> withoutBlockTime) e = ?Q e" if "e \<in> set ?xs" for e
      using bt [OF that] by (simp add: withoutBlockTime_def)
    have "filter ?P (commitments view) = map withoutBlockTime (filter (?P \<circ> withoutBlockTime) ?ts)"
      by (simp add: view filter_map)
    also have "filter (?P \<circ> withoutBlockTime) ?ts = filter ?Q ?ts"
      by (rule filter_cong) (simp_all only: set_ts PQ)
    also have "filter ?Q ?ts = filter ?Q ?xs"
      unfolding ts by (rule filter_sortBy_tie)
    also have "filter ?Q ?xs = filter (?P \<circ> withoutBlockTime) ?xs"
      by (rule filter_cong) (simp_all only: PQ)
    also have "map withoutBlockTime (filter (?P \<circ> withoutBlockTime) ?xs)
        = filter ?P (map withoutBlockTime ?xs)"
      by (simp add: filter_map)
    finally show ?thesis
      by (simp add: commitmentsWithTime_def comp_def)
  qed
  from acc cs sc order stable show ?thesis by blast
qed


theorem balance_view_order_witness:
  "getBalance toyCrypto tieLedger exampleWallet signedSession = (Inr tieView, signedSession)
   \<and> (0 :: nat) < 1 \<and> 1 < length (commitments tieView)
   \<and> isSpent (commitments tieView ! 0) = isSpent (commitments tieView ! 1)
   \<and> blockTimeOf tieLedger (address (commitments tieView ! 1))
        \<le> blockTimeOf tieLedger (address (commitments tieView ! 0))"
proof -
  have len: "(0 :: nat) < 1 \<and> 1 < length (commitments tieView)"
    and sp: "isSpent (commitments tieView ! 0) = isSpent (commitments tieView ! 1)"
    by (simp_all add: tieView_def)
  from balance_view_order [OF getBalance_tie] len sp getBalance_tie show ?thesis
    by blast
qed

text \<open>
  C4, as the claim states it, fails on two unspent entries created in the same block: the
  view lists the entry at address B before the entry at address A.
\<close>

theorem balance_ties_not_ordered_by_address:
  "getBalance toyCrypto tieLedger exampleWallet signedSession = (Inr tieView, signedSession)
   \<and> isSpent (commitments tieView ! 0) = isSpent (commitments tieView ! 1)
   \<and> blockTimeOf tieLedger (address (commitments tieView ! 0))
       = blockTimeOf tieLedger (address (commitments tieView ! 1))
   \<and> address (commitments tieView ! 1) < address (commitments tieView ! 0)"
  using getBalance_tie by (simp add: tieView_def blockTimeOf_def tieLedger_def)

section \<open>Claims about deposit and withdraw\<close>









section \<open>The balance under another enumeration order\<close>

lemma parseCommitmentAccounts_Inr_iff:
  "parseCommitmentAccounts as = Inr cs \<longleftrightarrow>
     (\<forall>a\<in>set as. 32 \<le> length (take 32 (drop 8 (snd a))))
     \<and> cs = map (\<lambda>a. \<lparr>cc_commitment = int (beValue (take 32 (drop 8 (snd a)))),
                        cc_address = fst a\<rparr>) as"
proof (induction as arbitrary: cs)
  case Nil
  show ?case by auto
next
  case (Cons a as)
  show ?case
  proof (cases "32 \<le> length (take 32 (drop 8 (snd a)))")
    case False
    then show ?thesis by (simp add: parseCommitmentAccount_def Let_def)
  next
    case True
    then have pa: "parseCommitmentAccount a =
        Inr \<lparr>cc_commitment = int (beValue (take 32 (drop 8 (snd a)))), cc_address = fst a\<rparr>"
      by (simp add: parseCommitmentAccount_def Let_def)
    show ?thesis
    proof (cases "parseCommitmentAccounts as")
      case (Inl e)
      with Cons [of "[]"] Cons pa True show ?thesis
        by (auto simp: Cons)
    next
      case (Inr cs0)
      with Cons [of cs0] pa True show ?thesis by auto
    qed
  qed
qed

lemma parseCommitmentAccounts_perm:
  assumes "mset as' = mset as" and "parseCommitmentAccounts as = Inr cs"
  shows "\<exists>cs'. parseCommitmentAccounts as' = Inr cs' \<and> mset cs' = mset cs"
proof -
  let ?pc = "\<lambda>a :: string \<times> byte list.
      \<lparr>cc_commitment = int (beValue (take 32 (drop 8 (snd a)))), cc_address = fst a\<rparr>"
  from assms(1) have set: "set as' = set as" by (rule mset_eq_setD)
  from assms(2) have ok: "\<forall>a\<in>set as. 32 \<le> length (take 32 (drop 8 (snd a)))"
    and cs: "cs = map ?pc as"
    by (simp_all add: parseCommitmentAccounts_Inr_iff)
  from ok set have "parseCommitmentAccounts as' = Inr (map ?pc as')"
    by (simp add: parseCommitmentAccounts_Inr_iff)
  moreover have "mset (map ?pc as') = mset cs"
    using assms(1) cs by simp
  ultimately show ?thesis by blast
qed

lemma mset_concat_map:
  "mset (concat (map f xs)) = sum_mset (image_mset (\<lambda>x. mset (f x)) (mset xs))"
  by (induction xs) simp_all

lemma mset_scanResult:
  "mset cs' = mset cs \<Longrightarrow>
     mset (scanResult E mk cs' as m) = mset (scanResult E mk cs as m)"
  by (simp add: scanResult_def mset_concat_map)

lemma timedEntry_same_ledger_view:
  "getAccountInfo L' = getAccountInfo L \<Longrightarrow> getBlockTime L' = getBlockTime L \<Longrightarrow>
     timedEntry E L' = timedEntry E L"
  by (rule ext) (simp add: timedEntry_def blockTimeOf_def)

lemma sorted_wrt_unique:
  assumes "\<And>a b. a \<in> set xs \<Longrightarrow> b \<in> set xs \<Longrightarrow> R a b \<Longrightarrow> R b a \<Longrightarrow> a = b"
  shows "sorted_wrt R xs \<Longrightarrow> sorted_wrt R ys \<Longrightarrow> mset xs = mset ys \<Longrightarrow> xs = ys"
  using assms
proof (induction xs arbitrary: ys)
  case Nil
  then show ?case by simp
next
  case (Cons x xs)
  from Cons.prems(3) have "ys \<noteq> []" by auto
  then obtain y ys' where ys: "ys = y # ys'" by (cases ys) auto
  from Cons.prems(3) have sets: "set (x # xs) = set ys" by (rule mset_eq_setD)
  have "x = y"
  proof (rule ccontr)
    assume ne: "x \<noteq> y"
    from sets ys have "y \<in> set (x # xs)" by auto
    with ne have yx: "y \<in> set xs" by auto
    from sets ys have "x \<in> set (y # ys')" by auto
    with ne have xy: "x \<in> set ys'" by auto
    from Cons.prems(1) yx have "R x y" by auto
    moreover from Cons.prems(2) ys xy have "R y x" by auto
    ultimately have "x = y"
      using Cons.prems(4) [of x y] yx by auto
    with ne show False by simp
  qed
  with Cons.prems(3) ys have m: "mset xs = mset ys'" by simp
  have "xs = ys'"
  proof (rule Cons.IH)
    show "sorted_wrt R xs" using Cons.prems(1) by simp
    show "sorted_wrt R ys'" using Cons.prems(2) ys by simp
    show "mset xs = mset ys'" by (rule m)
    show "a = b" if "a \<in> set xs" "b \<in> set xs" "R a b" "R b a" for a b
      using Cons.prems(4) [of a b] that by auto
  qed
  with \<open>x = y\<close> ys show ?case by simp
qed

lemma timed_entry_eqI:
  fixes a b :: timed_entry
  shows "withoutBlockTime a = withoutBlockTime b \<Longrightarrow> blockTime a = blockTime b \<Longrightarrow> a = b"
  by (cases a, cases b) (simp add: withoutBlockTime_def)


lemma getBalance_Inr_cached:
  assumes "cachedSignature s = Some sig" and "sig \<noteq> []"
    and "getBalance E L w s = (Inr v, s')"
  shows "\<exists>accounts cs. getProgramAccounts L = Some accounts
           \<and> parseCommitmentAccounts accounts = Inr cs
           \<and> publicKey w \<noteq> None
           \<and> commitments v = map withoutBlockTime
                (sortedCommitments E L
                   (scanResult E (int (beValue (take 31 sig))) cs COMMON_AMOUNTS 100))"
proof -
  from assms(3) have pk: "publicKey w \<noteq> None"
    by (auto simp: getBalance_def split: if_splits)
  from assms(3) pk obtain accounts where acc: "getProgramAccounts L = Some accounts"
    by (cases "getProgramAccounts L") (auto simp: getBalance_def)
  from assms(3) pk acc obtain cs where cs: "parseCommitmentAccounts accounts = Inr cs"
    by (cases "parseCommitmentAccounts accounts") (auto simp: getBalance_def)
  from getBalance_cached [OF assms(1,2) pk acc cs, of E] assms(3)
  have "commitments v = map withoutBlockTime
      (sortedCommitments E L (scanResult E (int (beValue (take 31 sig))) cs COMMON_AMOUNTS 100))"
    by auto
  with pk acc cs show ?thesis by blast
qed

lemma sortedCommitments_perm:
  assumes "mset owned' = mset owned"
    and "getAccountInfo L' = getAccountInfo L" and "getBlockTime L' = getBlockTime L"
  shows "mset (map withoutBlockTime (sortedCommitments E L' owned'))
           = mset (map withoutBlockTime (sortedCommitments E L owned))"
    and "(\<And>a b. a \<in> set (map withoutBlockTime (sortedCommitments E L owned))
            \<Longrightarrow> b \<in> set (map withoutBlockTime (sortedCommitments E L owned))
            \<Longrightarrow> isSpent a = isSpent b
            \<Longrightarrow> blockTimeOf L (address a) = blockTimeOf L (address b) \<Longrightarrow> a = b)
         \<Longrightarrow> sortedCommitments E L' owned' = sortedCommitments E L owned"
proof -
  let ?xs = "map (timedEntry E L) owned"
  let ?xs' = "map (timedEntry E L) owned'"
  have te: "timedEntry E L' = timedEntry E L"
    using assms(2,3) by (rule timedEntry_same_ledger_view)
  have s: "sortedCommitments E L owned = sortBy compareFn ?xs"
    and s': "sortedCommitments E L' owned' = sortBy compareFn ?xs'"
    by (simp_all add: sortedCommitments_def commitmentsWithTime_def te)
  have m: "mset ?xs' = mset ?xs" using assms(1) by simp
  show "mset (map withoutBlockTime (sortedCommitments E L' owned'))
           = mset (map withoutBlockTime (sortedCommitments E L owned))"
    unfolding s s' using assms(1) by (simp add: mset_sortBy)
  assume tie_free: "\<And>a b. a \<in> set (map withoutBlockTime (sortedCommitments E L owned))
            \<Longrightarrow> b \<in> set (map withoutBlockTime (sortedCommitments E L owned))
            \<Longrightarrow> isSpent a = isSpent b
            \<Longrightarrow> blockTimeOf L (address a) = blockTimeOf L (address b) \<Longrightarrow> a = b"
  have set_s: "set (sortBy compareFn ?xs) = set ?xs"
    using mset_sortBy [of compareFn ?xs] by (metis set_mset_mset)
  have bt: "blockTime e = blockTimeOf L (address e)" if "e \<in> set ?xs" for e
    using that by (auto simp: timedEntry_def Let_def)
  have "sortBy compareFn ?xs = sortBy compareFn ?xs'"
  proof (rule sorted_wrt_unique [where R = "\<lambda>a b. compareFn a b \<le> 0"])
    show "sorted_wrt (\<lambda>a b. compareFn a b \<le> 0) (sortBy compareFn ?xs)"
      by (rule sorted_sortBy)
    show "sorted_wrt (\<lambda>a b. compareFn a b \<le> 0) (sortBy compareFn ?xs')"
      by (rule sorted_sortBy)
    show "mset (sortBy compareFn ?xs) = mset (sortBy compareFn ?xs')"
      using assms(1) by (simp add: mset_sortBy)
    fix a b
    assume a: "a \<in> set (sortBy compareFn ?xs)" and b: "b \<in> set (sortBy compareFn ?xs)"
      and ab: "compareFn a b \<le> 0" and ba: "compareFn b a \<le> 0"
    from ab ba have key: "isSpent a = isSpent b" "blockTime a = blockTime b"
      by (auto simp: compareFn_le_iff)
    from a b set_s have a': "a \<in> set ?xs" and b': "b \<in> set ?xs" by simp_all
    have wa: "withoutBlockTime a \<in> set (map withoutBlockTime (sortedCommitments E L owned))"
      and wb: "withoutBlockTime b \<in> set (map withoutBlockTime (sortedCommitments E L owned))"
      using a b unfolding s by simp_all
    have "withoutBlockTime a = withoutBlockTime b"
    proof (rule tie_free [OF wa wb])
      show "isSpent (withoutBlockTime a) = isSpent (withoutBlockTime b)"
        using key(1) by (simp add: withoutBlockTime_def)
      show "blockTimeOf L (address (withoutBlockTime a)) = blockTimeOf L (address (withoutBlockTime b))"
        using key(2) bt [OF a'] bt [OF b'] by (simp add: withoutBlockTime_def)
    qed
    then show "a = b" using key(2) by (rule timed_entry_eqI)
  qed
  then show "sortedCommitments E L' owned' = sortedCommitments E L owned"
    unfolding s s' by simp
qed

lemma scanResult_two:
  assumes "0 \<le> k1" "k1 < 100" "0 \<le> k2" "k2 < 100"
  shows "scanResult toyCrypto exampleMasterKey
     [\<lparr>cc_commitment = exampleCommitment 10000000 k1, cc_address = x\<rparr>,
      \<lparr>cc_commitment = exampleCommitment 10000000 k2, cc_address = y\<rparr>] COMMON_AMOUNTS 100 =
     [\<lparr>o_commitment = exampleCommitment 10000000 k1, o_address = x, o_amount = 10000000,
       o_secret = poseidon toyCrypto [exampleMasterKey, k1, 10000000], o_nonce = k1\<rparr>,
      \<lparr>o_commitment = exampleCommitment 10000000 k2, o_address = y, o_amount = 10000000,
       o_secret = poseidon toyCrypto [exampleMasterKey, k2, 10000000], o_nonce = k2\<rparr>]"
  using assms by (simp add: scanResult_def COMMON_AMOUNTS_def toy_ownedAt)

lemma getBalance_two:
  assumes L: "getProgramAccounts L =
      Some [(x, accountData (exampleCommitment 10000000 k1)),
            (y, accountData (exampleCommitment 10000000 k2))]"
    and k: "0 \<le> k1" "k1 < 100" "0 \<le> k2" "k2 < 100"
    and unspent: "\<And>a. getAccountInfo L a = Some False"
  shows "getBalance toyCrypto L exampleWallet signedSession =
     (Inr \<lparr>totalBalance = 1 / 50,
           commitments = map withoutBlockTime (sortBy compareFn
             [\<lparr>commitment = exampleCommitment 10000000 k1, amount = 1 / 100, nonce = k1,
               isSpent = False, address = x, blockTime = blockTimeOf L x\<rparr>,
              \<lparr>commitment = exampleCommitment 10000000 k2, amount = 1 / 100, nonce = k2,
               isSpent = False, address = y, blockTime = blockTimeOf L y\<rparr>])\<rparr>,
      signedSession)"
proof -
  have parse: "parseCommitmentAccounts
     [(x, accountData (exampleCommitment 10000000 k1)),
      (y, accountData (exampleCommitment 10000000 k2))] =
   Inr [\<lparr>cc_commitment = exampleCommitment 10000000 k1, cc_address = x\<rparr>,
        \<lparr>cc_commitment = exampleCommitment 10000000 k2, cc_address = y\<rparr>]"
    using exampleCommitment_range [of 10000000 k1] exampleCommitment_range [of 10000000 k2] k
    by (simp add: parse_accountData)
  show ?thesis
    unfolding getBalance_cached [OF signedSession_cached exampleSignature_not_Nil
        exampleWallet_connected L parse]
      exampleMasterKey_def [symmetric] scanResult_two [OF k]
    by (simp add: commitmentsWithTime_def sortedCommitments_def timedEntry_def unspent)
qed

lemma getBalance_swappedTie:
  "getBalance toyCrypto swappedTieLedger exampleWallet signedSession
     = (Inr swappedTieView, signedSession)"
proof -
  have L: "getProgramAccounts swappedTieLedger =
      Some [(''A'', accountData (exampleCommitment 10000000 1)),
            (''B'', accountData (exampleCommitment 10000000 0))]"
    and u: "\<And>a. getAccountInfo swappedTieLedger a = Some False"
    and bt: "\<And>a. blockTimeOf swappedTieLedger a = 1700000000"
    by (simp_all add: swappedTieLedger_def blockTimeOf_def)
  show ?thesis
    unfolding getBalance_two [OF L _ _ _ _ u, of, simplified] bt
    by (simp add: sortBy_def compareFn_def withoutBlockTime_def swappedTieView_def)
qed

lemma getBalance_stamped:
  "getBalance toyCrypto stampedLedger exampleWallet signedSession
     = (Inr stampedView, signedSession)"
proof -
  have L: "getProgramAccounts stampedLedger =
      Some [(''B'', accountData (exampleCommitment 10000000 0)),
            (''A'', accountData (exampleCommitment 10000000 1))]"
    and u: "\<And>a. getAccountInfo stampedLedger a = Some False"
    and bt: "blockTimeOf stampedLedger ''A'' = 1700000100"
      "blockTimeOf stampedLedger ''B'' = 1700000000"
    by (simp_all add: stampedLedger_def blockTimeOf_def)
  show ?thesis
    unfolding getBalance_two [OF L _ _ _ _ u, of, simplified] bt
    by (simp add: sortBy_def compareFn_def withoutBlockTime_def stampedView_def)
qed

text \<open>
  C9, as the code has it. With the session signature cached, \<open>getBalance\<close> leaves the
  session as it is, and a second run that is given the same accounts in the same order
  returns the same view: the same entries in the same order and the same total. When
  the ledger lists the same accounts in another order (same account lookups, same block
  times), the second view holds the same entries; it lists them in the same order if no
  two different entries of the view share spent status and block time.
\<close>

theorem scan_idempotent:
  assumes "cachedSignature s = Some sig" and "getBalance E L w s = (view, s')"
  shows "s' = s \<and> getBalance E L w s' = (view, s')
       \<and> (sig \<noteq> [] \<and> view = Inr v
            \<and> getProgramAccounts L = Some accounts \<and> getProgramAccounts L' = Some accounts'
            \<and> mset accounts' = mset accounts
            \<and> getAccountInfo L' = getAccountInfo L \<and> getBlockTime L' = getBlockTime L
          \<longrightarrow> (\<exists>v'. getBalance E L' w s' = (Inr v', s')
                 \<and> mset (commitments v') = mset (commitments v)
                 \<and> ((\<forall>a\<in>set (commitments v). \<forall>b\<in>set (commitments v).
                        isSpent a = isSpent b
                        \<and> blockTimeOf L (address a) = blockTimeOf L (address b) \<longrightarrow> a = b)
                     \<longrightarrow> commitments v' = commitments v)))"
proof -
  from getBalance_cached_state [OF assms(1), of E L w] assms(2) have same: "s' = s" by simp
  have perm: "\<exists>v'. getBalance E L' w s' = (Inr v', s')
                 \<and> mset (commitments v') = mset (commitments v)
                 \<and> ((\<forall>a\<in>set (commitments v). \<forall>b\<in>set (commitments v).
                        isSpent a = isSpent b
                        \<and> blockTimeOf L (address a) = blockTimeOf L (address b) \<longrightarrow> a = b)
                     \<longrightarrow> commitments v' = commitments v)"
    if sig: "sig \<noteq> []" and v: "view = Inr v"
      and acc: "getProgramAccounts L = Some accounts"
      and acc': "getProgramAccounts L' = Some accounts'"
      and m: "mset accounts' = mset accounts"
      and ai: "getAccountInfo L' = getAccountInfo L" and gb: "getBlockTime L' = getBlockTime L"
  proof -
    let ?mk = "int (beValue (take 31 sig))"
    from getBalance_Inr_cached [OF assms(1) sig, of E L w v s'] assms(2) v acc
    obtain cs where cs: "parseCommitmentAccounts accounts = Inr cs"
      and pk: "publicKey w \<noteq> None"
      and cv: "commitments v = map withoutBlockTime
                (sortedCommitments E L (scanResult E ?mk cs COMMON_AMOUNTS 100))"
      by auto
    from parseCommitmentAccounts_perm [OF m cs] obtain cs' where
      cs': "parseCommitmentAccounts accounts' = Inr cs'" and mcs: "mset cs' = mset cs"
      by blast
    let ?owned = "scanResult E ?mk cs COMMON_AMOUNTS 100"
    let ?owned' = "scanResult E ?mk cs' COMMON_AMOUNTS 100"
    let ?v' = "\<lparr>totalBalance =
             sum_list (map amount (filter (\<lambda>e. \<not> isSpent e) (commitmentsWithTime E L' ?owned'))),
           commitments = map withoutBlockTime (sortedCommitments E L' ?owned')\<rparr>"
    have run: "getBalance E L' w s' = (Inr ?v', s')"
      using getBalance_cached [OF assms(1) sig pk acc' cs', of E] same by simp
    have mo: "mset ?owned' = mset ?owned" using mcs by (rule mset_scanResult)
    note sp = sortedCommitments_perm [OF mo ai gb, of E]
    have "mset (commitments ?v') = mset (commitments v)"
      using sp(1) cv by simp
    moreover have "commitments ?v' = commitments v"
      if "\<forall>a\<in>set (commitments v). \<forall>b\<in>set (commitments v).
                        isSpent a = isSpent b
                        \<and> blockTimeOf L (address a) = blockTimeOf L (address b) \<longrightarrow> a = b"
    proof -
      have "sortedCommitments E L' ?owned' = sortedCommitments E L ?owned"
      proof (rule sp(2))
        fix a b
        assume "a \<in> set (map withoutBlockTime (sortedCommitments E L ?owned))"
          "b \<in> set (map withoutBlockTime (sortedCommitments E L ?owned))"
          "isSpent a = isSpent b" "blockTimeOf L (address a) = blockTimeOf L (address b)"
        with that cv show "a = b" by auto
      qed
      with cv show ?thesis by simp
    qed
    ultimately show ?thesis using run by blast
  qed
  from same assms(2) perm show ?thesis by blast
qed


theorem scan_idempotent_witness:
  "getBalance toyCrypto stampedLedger exampleWallet signedSession
     = (Inr stampedView, signedSession)
   \<and> map_option mset (getProgramAccounts swappedStampedLedger)
       = map_option mset (getProgramAccounts stampedLedger)
   \<and> (case getBalance toyCrypto swappedStampedLedger exampleWallet signedSession of
         (Inr v', s') \<Rightarrow> commitments v' = commitments stampedView \<and> s' = signedSession
       | (Inl e, s') \<Rightarrow> False)"
proof -
  let ?accounts = "[(''B'', accountData (exampleCommitment 10000000 0)),
                    (''A'', accountData (exampleCommitment 10000000 1))]"
  let ?accounts' = "[(''A'', accountData (exampleCommitment 10000000 1)),
                     (''B'', accountData (exampleCommitment 10000000 0))]"
  have hyp: "exampleSignature \<noteq> [] \<and> (Inr stampedView :: js_error + V3BalanceInfo) = Inr stampedView
      \<and> getProgramAccounts stampedLedger = Some ?accounts
      \<and> getProgramAccounts swappedStampedLedger = Some ?accounts'
      \<and> mset ?accounts' = mset ?accounts
      \<and> getAccountInfo swappedStampedLedger = getAccountInfo stampedLedger
      \<and> getBlockTime swappedStampedLedger = getBlockTime stampedLedger"
    by (simp add: exampleSignature_not_Nil stampedLedger_def swappedStampedLedger_def)
  have tie_free: "\<forall>a\<in>set (commitments stampedView). \<forall>b\<in>set (commitments stampedView).
      isSpent a = isSpent b
      \<and> blockTimeOf stampedLedger (address a) = blockTimeOf stampedLedger (address b) \<longrightarrow> a = b"
    by (simp add: stampedView_def blockTimeOf_def stampedLedger_def)
  from scan_idempotent [OF signedSession_cached getBalance_stamped,
      of stampedView ?accounts swappedStampedLedger ?accounts'] hyp tie_free
  obtain v' where "getBalance toyCrypto swappedStampedLedger exampleWallet signedSession
        = (Inr v', signedSession)"
    and "commitments v' = commitments stampedView"
    by blast
  with getBalance_stamped hyp show ?thesis by simp
qed

text \<open>
  C9, as the claim states it, fails when the ledger lists the same two accounts in
  another order: the two deposits were created in the same block, and the view lists
  them in the order of the enumeration, B before A in one run and A before B in the
  other.
\<close>

theorem scan_depends_on_enumeration_order:
  "getBalance toyCrypto tieLedger exampleWallet signedSession = (Inr tieView, signedSession)
   \<and> getBalance toyCrypto swappedTieLedger exampleWallet signedSession
       = (Inr swappedTieView, signedSession)
   \<and> map_option mset (getProgramAccounts swappedTieLedger)
       = map_option mset (getProgramAccounts tieLedger)
   \<and> getAccountInfo swappedTieLedger = getAccountInfo tieLedger
   \<and> getBlockTime swappedTieLedger = getBlockTime tieLedger
   \<and> commitments swappedTieView \<noteq> commitments tieView"
  using getBalance_tie getBalance_swappedTie
  by (simp add: tieLedger_def swappedTieLedger_def tieView_def swappedTieView_def)

lemma toLamports_examples:
  "toLamports (1 / 200) = 5000000" "toLamports (1 / 100) = 10000000" "toLamports 2 = 2000000000"
  by (simp_all add: toLamports_def)

lemma toyCrypto_sel:
  "poseidon toyCrypto = toyPoseidon"
  "getAssociatedTokenAddressSync toyCrypto mint owner = ''ata/'' @ owner"
  "findProgramAddressSync toyCrypto seed bytes = seed @ ''/'' @ bufferToHexString bytes"
  by (simp_all add: toyCrypto_def)

lemma withdrawPlan_tie:
  "withdrawPlan toyCrypto tieLedger exampleWallet signedSession
       \<lparr>wd_amount = 1 / 200, wd_token = ''SOL'', wd_recipient = None\<rparr> =
     (Inr \<lparr>wp_commitment = \<lparr>commitment = exampleCommitment 10000000 0, amount = 1 / 100,
                              nonce = 0, isSpent = False, address = ''B''\<rparr>,
           wp_secret = toyPoseidon [exampleMasterKey, 0, 10000000],
           wp_nullifier = toyPoseidon [toyPoseidon [exampleMasterKey, 0, 10000000],
                                       exampleCommitment 10000000 0],
           wp_withdrawAmount = 5000000,
           wp_changeAmount = 5000000,
           wp_tokenMint = ''So11111111111111111111111111111111111111112'',
           wp_recipientTokenAccount = ''ata/Wallet'',
           wp_recipient = ''Wallet''\<rparr>, signedSession)"
proof -
  have d: "deriveSecret toyCrypto exampleWallet 0 10000000 signedSession
      = (Inr (toyPoseidon [exampleMasterKey, 0, 10000000]), signedSession)"
    using deriveSecret_cached [OF signedSession_cached, of toyCrypto exampleWallet 0 10000000]
      exampleSignature_not_Nil
    by (simp add: exampleMasterKey_def toyCrypto_sel)
  have pk: "publicKey exampleWallet = Some ''Wallet''" by (simp add: exampleWallet_def)
  show ?thesis
    by (simp add: withdrawPlan_def pk getBalance_tie tieView_def toLamports_examples d
        getTokenMint_def computeNullifier_def toyCrypto_sel Let_def)
qed


lemma tieLedger_sel:
  "getAccountInfo tieLedger a = Some False"
  "simulateTransaction tieLedger tx = True"
  "sendTransaction tieLedger tx = Some ''signature''"
  by (simp_all add: tieLedger_def)




lemma specFullProve_accepts:
  "generateWithdrawWithChangeProof (specFullProve E maxAllowed) inputs = Inr r \<longleftrightarrow>
     oldAmount inputs = withdrawAmount inputs + newAmount inputs
     \<and> oldNullifier inputs = poseidon E [oldSecret inputs, oldCommitment inputs]
     \<and> newCommitment inputs = poseidon E [newAmount inputs, newSecret inputs]"
  by (simp add: generateWithdrawWithChangeProof_def specFullProve_def circuitSatisfied_def
      hasInputs_def inputOf_def)

lemma withdrawPlan_Inr:
  assumes "withdrawPlan E L w s params = (Inr p, s')"
  shows "\<not> isSpent (wp_commitment p)
       \<and> toLamports (wd_amount params) \<le> toLamports (amount (wp_commitment p))
       \<and> wp_withdrawAmount p = toLamports (wd_amount params)
       \<and> wp_changeAmount p = toLamports (amount (wp_commitment p)) - toLamports (wd_amount params)
       \<and> wp_nullifier p = poseidon E [wp_secret p, commitment (wp_commitment p)]"
proof -
  from assms obtain balance :: V3BalanceInfo and c where
    f: "find (\<lambda>c. \<not> isSpent c \<and> toLamports (amount c) \<ge> toLamports (wd_amount params))
          (commitments balance) = Some c"
    and c: "wp_commitment p = c"
    and wa: "wp_withdrawAmount p = toLamports (wd_amount params)"
    and ca: "wp_changeAmount p = toLamports (amount c) - toLamports (wd_amount params)"
    and nf: "wp_nullifier p = computeNullifier E (wp_secret p) (commitment c)"
    by (auto simp: withdrawPlan_def Let_def
        split: option.splits prod.splits sum.splits if_splits)
  from f have "\<not> isSpent c \<and> toLamports (amount c) \<ge> toLamports (wd_amount params)"
    by (auto simp: find_Some_iff)
  with c wa ca nf show ?thesis by (simp add: computeNullifier_def)
qed

text \<open>
  C3. A withdraw-with-change proof is generated only for inputs with
  \<open>withdrawAmount + newAmount = oldAmount\<close>: the generator hands its inputs to the
  prover, and the circuit asserts the equation. The transaction builder computes the
  change as the amount of the selected unspent commitment minus the withdraw amount,
  takes the with-change path exactly when the change is positive, and commits to that
  change in the new commitment of its ledger operation; so a proof for the selected
  amount and the withdraw amount has the builder's change as \<open>newAmount\<close>, and the
  builder's own values are inputs the circuit accepts.
\<close>

theorem withdraw_change_conservation:
  "(generateWithdrawWithChangeProof (specFullProve E maxAllowed) inputs = Inr r \<longrightarrow>
      withdrawAmount inputs + newAmount inputs = oldAmount inputs)
   \<and> (withdrawPlan E L w s params = (Inr p, s') \<longrightarrow>
        wp_withdrawAmount p + wp_changeAmount p = toLamports (amount (wp_commitment p))
      \<and> wp_withdrawAmount p = toLamports (wd_amount params)
      \<and> 0 \<le> wp_changeAmount p
      \<and> \<not> isSpent (wp_commitment p)
      \<and> withdraw E L w s changeSecret params =
           (if 0 < wp_changeAmount p then withdrawWithChange E L changeSecret p
            else simpleWithdraw E L p, s')
      \<and> (ensureTokenAccount L p = Inr () \<longrightarrow>
            withdrawWithChange E L changeSecret p =
              simulateAndSend L
                (WithdrawWithChangeOp (toBytes32 (wp_nullifier p))
                   (toBytes32 (computeCommitment E
                      (toLamports (amount (wp_commitment p)) - wp_withdrawAmount p) changeSecret))
                   (wp_withdrawAmount p) (wp_recipientTokenAccount p)))
      \<and> (generateWithdrawWithChangeProof (specFullProve E maxAllowed) inputs = Inr r
            \<and> oldAmount inputs = toLamports (amount (wp_commitment p))
            \<and> withdrawAmount inputs = wp_withdrawAmount p
          \<longrightarrow> newAmount inputs = wp_changeAmount p)
      \<and> generateWithdrawWithChangeProof (specFullProve E maxAllowed)
           \<lparr>oldCommitment = commitment (wp_commitment p),
            oldNullifier = wp_nullifier p,
            newCommitment = computeCommitment E (wp_changeAmount p) changeSecret,
            withdrawAmount = wp_withdrawAmount p,
            oldAmount = toLamports (amount (wp_commitment p)),
            oldSecret = wp_secret p,
            newAmount = wp_changeAmount p,
            newSecret = changeSecret\<rparr> = Inr ())"
proof (intro conjI impI)
  assume "generateWithdrawWithChangeProof (specFullProve E maxAllowed) inputs = Inr r"
  then show "withdrawAmount inputs + newAmount inputs = oldAmount inputs"
    by (simp add: specFullProve_accepts)
next
  assume plan: "withdrawPlan E L w s params = (Inr p, s')"
  note P = withdrawPlan_Inr [OF plan]
  from P show sum: "wp_withdrawAmount p + wp_changeAmount p = toLamports (amount (wp_commitment p))"
    by simp
  from P show "wp_withdrawAmount p = toLamports (wd_amount params)" by simp
  from P show "0 \<le> wp_changeAmount p" by simp
  from P show "\<not> isSpent (wp_commitment p)" by simp
  from plan show "withdraw E L w s changeSecret params =
           (if 0 < wp_changeAmount p then withdrawWithChange E L changeSecret p
            else simpleWithdraw E L p, s')"
    by (simp add: withdraw_def)
  from P have change: "wp_changeAmount p = toLamports (amount (wp_commitment p)) - wp_withdrawAmount p"
    by simp
  show "withdrawWithChange E L changeSecret p =
              simulateAndSend L
                (WithdrawWithChangeOp (toBytes32 (wp_nullifier p))
                   (toBytes32 (computeCommitment E
                      (toLamports (amount (wp_commitment p)) - wp_withdrawAmount p) changeSecret))
                   (wp_withdrawAmount p) (wp_recipientTokenAccount p))"
    if "ensureTokenAccount L p = Inr ()"
    using that by (simp add: withdrawWithChange_def change)
  show "newAmount inputs = wp_changeAmount p"
    if "generateWithdrawWithChangeProof (specFullProve E maxAllowed) inputs = Inr r
            \<and> oldAmount inputs = toLamports (amount (wp_commitment p))
            \<and> withdrawAmount inputs = wp_withdrawAmount p"
    using that change by (simp add: specFullProve_accepts)
  from P sum show "generateWithdrawWithChangeProof (specFullProve E maxAllowed)
           \<lparr>oldCommitment = commitment (wp_commitment p),
            oldNullifier = wp_nullifier p,
            newCommitment = computeCommitment E (wp_changeAmount p) changeSecret,
            withdrawAmount = wp_withdrawAmount p,
            oldAmount = toLamports (amount (wp_commitment p)),
            oldSecret = wp_secret p,
            newAmount = wp_changeAmount p,
            newSecret = changeSecret\<rparr> = Inr ()"
    by (simp add: specFullProve_accepts computeCommitment_def)
qed

theorem withdraw_change_conservation_witness:
  "generateWithdrawWithChangeProof (specFullProve toyCrypto 100000000000) balancedInputs = Inr ()
   \<and> withdrawAmount balancedInputs + newAmount balancedInputs = oldAmount balancedInputs
   \<and> (5000000 :: int) + 5000000 = toLamports (1 / 100)
   \<and> newAmount balancedInputs = 5000000
   \<and> withdraw toyCrypto tieLedger exampleWallet signedSession 7
        \<lparr>wd_amount = 1 / 200, wd_token = ''SOL'', wd_recipient = None\<rparr>
      = (Inr ''signature'', signedSession)"
proof -
  let ?p = "\<lparr>wp_commitment = \<lparr>commitment = exampleCommitment 10000000 0, amount = 1 / 100,
                              nonce = 0, isSpent = False, address = ''B''\<rparr>,
           wp_secret = toyPoseidon [exampleMasterKey, 0, 10000000],
           wp_nullifier = toyPoseidon [toyPoseidon [exampleMasterKey, 0, 10000000],
                                       exampleCommitment 10000000 0],
           wp_withdrawAmount = 5000000,
           wp_changeAmount = 5000000,
           wp_tokenMint = ''So11111111111111111111111111111111111111112'',
           wp_recipientTokenAccount = ''ata/Wallet'',
           wp_recipient = ''Wallet''\<rparr>"
  have e: "ensureTokenAccount tieLedger ?p = Inr ()"
    by (simp add: ensureTokenAccount_def tieLedger_sel del: toyPoseidon.simps)
  have send: "simulateAndSend tieLedger tx = Inr ''signature''" for tx
    by (simp add: simulateAndSend_def tieLedger_sel)
  have accepted: "generateWithdrawWithChangeProof (specFullProve toyCrypto 100000000000)
      balancedInputs = Inr ()"
    by (simp add: specFullProve_accepts balancedInputs_def toyCrypto_sel del: toyPoseidon.simps)
  have old: "oldAmount balancedInputs = toLamports (1 / 100)"
    "withdrawAmount balancedInputs = 5000000"
    by (simp_all add: balancedInputs_def toLamports_examples)
  from withdraw_change_conservation [of toyCrypto 100000000000 balancedInputs "()"
      tieLedger exampleWallet signedSession
      "\<lparr>wd_amount = 1 / 200, wd_token = ''SOL'', wd_recipient = None\<rparr>" ?p signedSession 7]
    withdrawPlan_tie e accepted old
  show ?thesis
    by (simp add: send del: toyPoseidon.simps)
qed




end
